theory Spec2Isabelle
  imports Complex_Main "HOL-Library.Word"
begin

section \<open>JavaScript strings\<close>

text \<open>
  A JavaScript string is a sequence of 16-bit code units. The source file
  \<^verbatim>\<open>src/public/chat.js\<close> only ever compares code units, concatenates strings,
  trims them and splits them at line feeds, so a list of 16-bit words carries all of it.
  \<open>js\<close> turns an ASCII literal of the source into such a string.
\<close>

type_synonym code_unit = "16 word"
type_synonym jsstring = "code_unit list"

definition js :: "string \<Rightarrow> jsstring" where
  "js s = map (\<lambda>c. of_nat (of_char c)) s"

text \<open>
  \<^verbatim>\<open>String.prototype.trim\<close> removes leading and trailing WhiteSpace and
  LineTerminator code units (ECMA-262): TAB, VT, FF, SP, NBSP, ZWNBSP, the other space
  separators, LF, CR, LS and PS.
\<close>

definition is_trim_space :: "code_unit \<Rightarrow> bool" where
  "is_trim_space c \<longleftrightarrow>
     c = 0x09 \<or> c = 0x0A \<or> c = 0x0B \<or> c = 0x0C \<or> c = 0x0D \<or> c = 0x20 \<or>
     c = 0xA0 \<or> c = 0x1680 \<or> (0x2000 \<le> c \<and> c \<le> 0x200A) \<or>
     c = 0x2028 \<or> c = 0x2029 \<or> c = 0x202F \<or> c = 0x205F \<or> c = 0x3000 \<or> c = 0xFEFF"

definition trim :: "jsstring \<Rightarrow> jsstring" where
  "trim s = rev (dropWhile is_trim_space (rev (dropWhile is_trim_space s)))"

text \<open>
  \<^verbatim>\<open>chunk.split("\n")\<close>: the pieces between the separators, in order. The empty
  string gives one empty piece, and a string that ends with the separator gives a last
  piece that is empty. \<open>split_from\<close> carries the piece read so far.
\<close>

fun split_from :: "code_unit \<Rightarrow> jsstring \<Rightarrow> jsstring \<Rightarrow> jsstring list" where
  "split_from sep piece [] = [piece]"
| "split_from sep piece (c # cs) =
     (if c = sep then piece # split_from sep [] cs
      else split_from sep (piece @ [c]) cs)"

definition split :: "code_unit \<Rightarrow> jsstring \<Rightarrow> jsstring list" where
  "split sep s = split_from sep [] s"

abbreviation LF :: code_unit where
  "LF \<equiv> 0x0A"

section \<open>JSON.parse\<close>

text \<open>
  The value that \<^verbatim>\<open>JSON.parse\<close> builds. A number literal is kept as the exact
  rational it denotes; the members of an object are kept in source order, duplicates
  included (a property read takes the last one).
\<close>

datatype json =
    JNull
  | JBool bool
  | JNumber rat
  | JString jsstring
  | JArray "json list"
  | JObject "(jsstring \<times> json) list"

text \<open>JSON white space: TAB, LF, CR and SP.\<close>

definition is_ws :: "code_unit \<Rightarrow> bool" where
  "is_ws c \<longleftrightarrow> c = 0x09 \<or> c = 0x0A \<or> c = 0x0D \<or> c = 0x20"

definition skip_ws :: "jsstring \<Rightarrow> jsstring" where
  "skip_ws s = dropWhile is_ws s"

definition is_digit :: "code_unit \<Rightarrow> bool" where
  "is_digit c \<longleftrightarrow> 0x30 \<le> c \<and> c \<le> 0x39"

definition digits_value :: "jsstring \<Rightarrow> nat" where
  "digits_value ds = foldl (\<lambda>n d. 10 * n + (unat d - 48)) 0 ds"

definition hex_value :: "code_unit \<Rightarrow> nat option" where
  "hex_value c =
     (if 0x30 \<le> c \<and> c \<le> 0x39 then Some (unat c - 48)
      else if 0x41 \<le> c \<and> c \<le> 0x46 then Some (unat c - 55)
      else if 0x61 \<le> c \<and> c \<le> 0x66 then Some (unat c - 87)
      else None)"

text \<open>The four hex digits of a \<^verbatim>\<open>\uXXXX\<close> escape, as one code unit.\<close>

definition hex4 :: "code_unit \<Rightarrow> code_unit \<Rightarrow> code_unit \<Rightarrow> code_unit \<Rightarrow> code_unit option" where
  "hex4 a b c d =
     (case (hex_value a, hex_value b, hex_value c, hex_value d) of
        (Some h1, Some h2, Some h3, Some h4) \<Rightarrow>
          Some (of_nat (4096 * h1 + 256 * h2 + 16 * h3 + h4))
      | _ \<Rightarrow> None)"

text \<open>The single-character escapes: \<^verbatim>\<open>\" \\ \/ \b \f \n \r \t\<close>.\<close>

definition escape :: "code_unit \<Rightarrow> code_unit option" where
  "escape e =
     (if e = 0x22 then Some 0x22
      else if e = 0x5C then Some 0x5C
      else if e = 0x2F then Some 0x2F
      else if e = 0x62 then Some 0x08
      else if e = 0x66 then Some 0x0C
      else if e = 0x6E then Some 0x0A
      else if e = 0x72 then Some 0x0D
      else if e = 0x74 then Some 0x09
      else None)"

text \<open>
  The characters of a string literal, read after the opening quote up to the closing
  one: the decoded string and the input that follows. A control character below U+0020,
  an unknown escape and a missing closing quote are syntax errors.
\<close>

fun parse_chars :: "jsstring \<Rightarrow> (jsstring \<times> jsstring) option" where
  "parse_chars [] = None"
| "parse_chars (c # cs) =
     (if c = 0x22 then Some ([], cs)
      else if c = 0x5C then
        (case cs of
           [] \<Rightarrow> None
         | e # cs' \<Rightarrow>
             if e = 0x75 then
               (case cs' of
                  h1 # h2 # h3 # h4 # cs'' \<Rightarrow>
                    (case hex4 h1 h2 h3 h4 of
                       None \<Rightarrow> None
                     | Some u \<Rightarrow>
                         (case parse_chars cs'' of
                            None \<Rightarrow> None
                          | Some (t, r) \<Rightarrow> Some (u # t, r)))
                | _ \<Rightarrow> None)
             else
               (case escape e of
                  None \<Rightarrow> None
                | Some u \<Rightarrow>
                    (case parse_chars cs' of
                       None \<Rightarrow> None
                     | Some (t, r) \<Rightarrow> Some (u # t, r))))
      else if c < 0x20 then None
      else
        (case parse_chars cs of
           None \<Rightarrow> None
         | Some (t, r) \<Rightarrow> Some (c # t, r)))"

text \<open>
  A number literal: an optional minus, an integer part (\<^verbatim>\<open>0\<close>, or a non-zero
  digit and more digits), an optional fraction (a dot and at least one digit) and an
  optional exponent (\<^verbatim>\<open>e\<close> or \<^verbatim>\<open>E\<close>, an optional sign and at least one digit).
  The result is the value of the literal and the input that follows it.
\<close>

definition parse_fraction :: "jsstring \<Rightarrow> jsstring \<times> jsstring" where
  "parse_fraction s =
     (case s of
        c # r \<Rightarrow>
          if c = 0x2E \<and> takeWhile is_digit r \<noteq> []
          then (takeWhile is_digit r, dropWhile is_digit r)
          else ([], s)
      | [] \<Rightarrow> ([], s))"

definition parse_exponent :: "jsstring \<Rightarrow> int \<times> jsstring" where
  "parse_exponent s =
     (case s of
        c # r \<Rightarrow>
          if c = 0x65 \<or> c = 0x45 then
            (case r of
               g # r' \<Rightarrow>
                 if g = 0x2B \<and> takeWhile is_digit r' \<noteq> []
                 then (int (digits_value (takeWhile is_digit r')), dropWhile is_digit r')
                 else if g = 0x2D \<and> takeWhile is_digit r' \<noteq> []
                 then (- int (digits_value (takeWhile is_digit r')), dropWhile is_digit r')
                 else if takeWhile is_digit r \<noteq> []
                 then (int (digits_value (takeWhile is_digit r)), dropWhile is_digit r)
                 else (0, s)
             | [] \<Rightarrow> (0, s))
          else (0, s)
      | [] \<Rightarrow> (0, s))"

definition parse_integer :: "jsstring \<Rightarrow> (jsstring \<times> jsstring) option" where
  "parse_integer s =
     (case s of
        d # r \<Rightarrow>
          if d = 0x30 then Some ([d], r)
          else if is_digit d then Some (d # takeWhile is_digit r, dropWhile is_digit r)
          else None
      | [] \<Rightarrow> None)"

definition decimal_value :: "bool \<Rightarrow> jsstring \<Rightarrow> jsstring \<Rightarrow> int \<Rightarrow> rat" where
  "decimal_value neg ip fp ex =
     (let m = of_nat (digits_value (ip @ fp)) :: rat;
          e = ex - int (length fp);
          v = (if 0 \<le> e then m * 10 ^ nat e else m / 10 ^ nat (- e))
      in if neg then - v else v)"

definition parse_number :: "jsstring \<Rightarrow> (rat \<times> jsstring) option" where
  "parse_number s =
     (let neg = (s \<noteq> [] \<and> hd s = 0x2D);
          s1 = (if neg then tl s else s)
      in case parse_integer s1 of
           None \<Rightarrow> None
         | Some (ip, s2) \<Rightarrow>
             (let (fp, s3) = parse_fraction s2;
                  (ex, s4) = parse_exponent s3
              in Some (decimal_value neg ip fp ex, s4)))"

definition starts_with :: "jsstring \<Rightarrow> jsstring \<Rightarrow> bool" where
  "starts_with p s \<longleftrightarrow> take (length p) s = p"

lemma skip_ws_length: "length (skip_ws s) \<le> length s"
  by (simp add: skip_ws_def length_dropWhile_le)

lemma skip_ws_Cons_length: "skip_ws s = x # r \<Longrightarrow> length r < length s"
  using skip_ws_length [of s] by simp

lemma parse_chars_length: "parse_chars s = Some (t, r) \<Longrightarrow> length r < length s"
proof (induction s arbitrary: t r rule: parse_chars.induct)
  case 1
  then show ?case by simp
next
  case (2 c cs)
  show ?case
    using "2.prems" "2.IH"
    by (fastforce split: if_splits list.splits option.splits)
qed

text \<open>
  A value, the elements of an array after its opening bracket, and the members of an
  object after its opening brace. \<open>parse_value\<close> reads a value that starts at the head
  of the input; \<open>parse_elements\<close> and \<open>parse_members\<close> start after white space. Each
  returns what it read and the input that follows. The tests \<open>length r < length s\<close>
  always succeed (\<open>parse_value_length\<close> below): they are there for the termination
  proof.
\<close>

function parse_value :: "jsstring \<Rightarrow> (json \<times> jsstring) option"
  and parse_elements :: "jsstring \<Rightarrow> (json list \<times> jsstring) option"
  and parse_members :: "jsstring \<Rightarrow> ((jsstring \<times> json) list \<times> jsstring) option"
where
  "parse_value [] = None"
| "parse_value (c # cs) =
     (if c = 0x5B then
        (case skip_ws cs of
           [] \<Rightarrow> None
         | x # r \<Rightarrow>
             if x = 0x5D then Some (JArray [], r)
             else
               (case parse_elements (x # r) of
                  None \<Rightarrow> None
                | Some (vs, r') \<Rightarrow> Some (JArray vs, r')))
      else if c = 0x7B then
        (case skip_ws cs of
           [] \<Rightarrow> None
         | x # r \<Rightarrow>
             if x = 0x7D then Some (JObject [], r)
             else
               (case parse_members (x # r) of
                  None \<Rightarrow> None
                | Some (ms, r') \<Rightarrow> Some (JObject ms, r')))
      else if c = 0x22 then
        (case parse_chars cs of
           None \<Rightarrow> None
         | Some (t, r) \<Rightarrow> Some (JString t, r))
      else if c = 0x2D \<or> is_digit c then
        (case parse_number (c # cs) of
           None \<Rightarrow> None
         | Some (q, r) \<Rightarrow> Some (JNumber q, r))
      else if starts_with (js ''true'') (c # cs) then Some (JBool True, drop 4 (c # cs))
      else if starts_with (js ''false'') (c # cs) then Some (JBool False, drop 5 (c # cs))
      else if starts_with (js ''null'') (c # cs) then Some (JNull, drop 4 (c # cs))
      else None)"
| "parse_elements s =
     (case parse_value s of
        None \<Rightarrow> None
      | Some (v, r) \<Rightarrow>
          if length r < length s then
            (case skip_ws r of
               [] \<Rightarrow> None
             | x # r' \<Rightarrow>
                 if x = 0x2C then
                   (case parse_elements (skip_ws r') of
                      None \<Rightarrow> None
                    | Some (vs, r'') \<Rightarrow> Some (v # vs, r''))
                 else if x = 0x5D then Some ([v], r')
                 else None)
          else None)"
| "parse_members s =
     (case s of
        [] \<Rightarrow> None
      | q # s1 \<Rightarrow>
          if q = 0x22 then
            (case parse_chars s1 of
               None \<Rightarrow> None
             | Some (k, r1) \<Rightarrow>
                 (case skip_ws r1 of
                    [] \<Rightarrow> None
                  | col # r2 \<Rightarrow>
                      if col = 0x3A then
                        (case parse_value (skip_ws r2) of
                           None \<Rightarrow> None
                         | Some (v, r3) \<Rightarrow>
                             if length r3 < length (skip_ws r2) then
                               (case skip_ws r3 of
                                  [] \<Rightarrow> None
                                | x # r4 \<Rightarrow>
                                    if x = 0x2C then
                                      (case parse_members (skip_ws r4) of
                                         None \<Rightarrow> None
                                       | Some (ms, r5) \<Rightarrow> Some ((k, v) # ms, r5))
                                    else if x = 0x7D then Some ([(k, v)], r4)
                                    else None)
                             else None)
                      else None))
          else None)"
  by pat_completeness auto
termination
proof (relation "measure (\<lambda>x. case x of
          Inl s \<Rightarrow> 2 * length s
        | Inr (Inl s) \<Rightarrow> 2 * length s + 1
        | Inr (Inr s) \<Rightarrow> 2 * length s + 1)", goal_cases)
  case 1
  then show ?case by simp
next
  case (2 c cs x r)
  then show ?case using skip_ws_Cons_length [of cs x r] by simp
next
  case (3 c cs x r)
  then show ?case using skip_ws_Cons_length [of cs x r] by simp
next
  case (4 s)
  then show ?case by simp
next
  case (5 s p v r x r')
  then show ?case
    using skip_ws_Cons_length [of r x r'] skip_ws_length [of r'] by simp
next
  case (6 s q s1 p k r1 col r2)
  then show ?case
    using parse_chars_length [of s1 k r1] skip_ws_Cons_length [of r1 col r2]
      skip_ws_length [of r2] by simp
next
  case (7 s q s1 p k r1 col r2 p' v r3 x r4)
  then show ?case
    using parse_chars_length [of s1 k r1] skip_ws_Cons_length [of r1 col r2]
      skip_ws_length [of r2] skip_ws_Cons_length [of r3 x r4] skip_ws_length [of r4]
    by simp
qed

text \<open>Every parser consumes input, so the tests above never fail.\<close>

lemma parse_number_length:
  assumes "parse_number s = Some (q, r)"
  shows "length r < length s"
proof -
  have frac: "length (snd (parse_fraction u)) \<le> length u" for u
    by (auto simp: parse_fraction_def split: list.splits
        intro: le_trans [OF length_dropWhile_le])
  have expo: "length (snd (parse_exponent u)) \<le> length u" for u
    by (auto simp: parse_exponent_def split: list.splits
        intro: le_trans [OF length_dropWhile_le] le_SucI)
  have int: "parse_integer u = Some (ip, v) \<Longrightarrow> length v < length u" for u ip v
    by (auto simp: parse_integer_def split: list.splits if_splits
        intro: le_imp_less_Suc length_dropWhile_le)
  from assms obtain ip s2 where
    i: "parse_integer (if s \<noteq> [] \<and> hd s = 0x2D then tl s else s) = Some (ip, s2)"
    and r: "r = snd (parse_exponent (snd (parse_fraction s2)))"
    by (auto simp: parse_number_def Let_def split: option.splits prod.splits)
  have "length r \<le> length s2"
    unfolding r using expo [of "snd (parse_fraction s2)"] frac [of s2] by simp
  moreover have "length s2 < length (if s \<noteq> [] \<and> hd s = 0x2D then tl s else s)"
    by (rule int [OF i])
  moreover have "length (if s \<noteq> [] \<and> hd s = 0x2D then tl s else s) \<le> length s"
    by simp
  ultimately show ?thesis by simp
qed

lemma parse_value_length:
  "parse_value s = Some (v, r) \<Longrightarrow> length r < length s"
  and parse_elements_length:
  "parse_elements s = Some (vs, r) \<Longrightarrow> length r < length s"
  and parse_members_length:
  "parse_members s = Some (ms, r) \<Longrightarrow> length r < length s"
proof (induction s and s and s arbitrary: v r and vs r and ms r
    rule: parse_value_parse_elements_parse_members.induct)
  case 1
  then show ?case by simp
next
  case (2 c cs)
  consider "c = 0x5B" | "c \<noteq> 0x5B" "c = 0x7B" | "c \<noteq> 0x5B" "c \<noteq> 0x7B" "c = 0x22" |
    "c \<noteq> 0x5B" "c \<noteq> 0x7B" "c \<noteq> 0x22" "c = 0x2D \<or> is_digit c" |
    "c \<noteq> 0x5B" "c \<noteq> 0x7B" "c \<noteq> 0x22" "\<not> (c = 0x2D \<or> is_digit c)"
    by blast
  then show ?case
  proof cases
    case 1
    have eq: "parse_value (c # cs) =
        (case skip_ws cs of
           [] \<Rightarrow> None
         | x # r \<Rightarrow>
             if x = 0x5D then Some (JArray [], r)
             else
               (case parse_elements (x # r) of
                  None \<Rightarrow> None
                | Some (vs, r') \<Rightarrow> Some (JArray vs, r')))"
      using 1 by simp
    from "2.prems" obtain x r0 where s: "skip_ws cs = x # r0"
      unfolding eq by (cases "skip_ws cs") simp_all
    show ?thesis
    proof (cases "x = 0x5D")
      case True
      with s "2.prems" skip_ws_Cons_length [OF s] show ?thesis
        unfolding eq by simp
    next
      case False
      with s "2.prems" obtain vs where "parse_elements (x # r0) = Some (vs, r)"
        unfolding eq by (cases "parse_elements (x # r0)") auto
      from "2.IH"(1) [OF 1 s False this] skip_ws_Cons_length [OF s] show ?thesis by simp
    qed
  next
    case 2
    have eq: "parse_value (c # cs) =
        (case skip_ws cs of
           [] \<Rightarrow> None
         | x # r \<Rightarrow>
             if x = 0x7D then Some (JObject [], r)
             else
               (case parse_members (x # r) of
                  None \<Rightarrow> None
                | Some (ms, r') \<Rightarrow> Some (JObject ms, r')))"
      using 2 by simp
    from "2.prems" obtain x r0 where s: "skip_ws cs = x # r0"
      unfolding eq by (cases "skip_ws cs") simp_all
    show ?thesis
    proof (cases "x = 0x7D")
      case True
      with s "2.prems" skip_ws_Cons_length [OF s] show ?thesis
        unfolding eq by simp
    next
      case False
      with s "2.prems" obtain ms where "parse_members (x # r0) = Some (ms, r)"
        unfolding eq by (cases "parse_members (x # r0)") auto
      from "2.IH"(2) [OF 2 s False this] skip_ws_Cons_length [OF s] show ?thesis by simp
    qed
  next
    case 3
    have eq: "parse_value (c # cs) =
        (case parse_chars cs of
           None \<Rightarrow> None
         | Some (t, r) \<Rightarrow> Some (JString t, r))"
      using 3 by simp
    from "2.prems" obtain t where "parse_chars cs = Some (t, r)"
      unfolding eq by (cases "parse_chars cs") auto
    from parse_chars_length [OF this] show ?thesis by simp
  next
    case 4
    have eq: "parse_value (c # cs) =
        (case parse_number (c # cs) of
           None \<Rightarrow> None
         | Some (q, r) \<Rightarrow> Some (JNumber q, r))"
      using 4 by simp
    from "2.prems" obtain q where "parse_number (c # cs) = Some (q, r)"
      unfolding eq by (cases "parse_number (c # cs)") auto
    from parse_number_length [OF this] show ?thesis .
  next
    case 5
    have eq: "parse_value (c # cs) =
        (if starts_with (js ''true'') (c # cs) then Some (JBool True, drop 4 (c # cs))
         else if starts_with (js ''false'') (c # cs) then Some (JBool False, drop 5 (c # cs))
         else if starts_with (js ''null'') (c # cs) then Some (JNull, drop 4 (c # cs))
         else None)"
      using 5 by simp
    from "2.prems" have "r = drop 4 (c # cs) \<or> r = drop 5 (c # cs)"
      unfolding eq by (auto split: if_splits)
    then show ?thesis by auto
  qed
next
  case (3 s)
  from "3.prems" obtain v r1 where v: "parse_value s = Some (v, r1)" and l: "length r1 < length s"
    by (subst (asm) parse_elements.simps) (auto split: option.splits if_splits)
  from "3.prems" v l obtain x r' where s: "skip_ws r1 = x # r'"
    by (subst (asm) parse_elements.simps) (auto split: list.splits)
  show ?case
  proof (cases "x = 0x2C")
    case True
    with "3.prems" v l s obtain vs' where e: "parse_elements (skip_ws r') = Some (vs', r)"
      by (subst (asm) parse_elements.simps) (auto split: option.splits)
    from "3.IH"(2) [OF v refl l s True e] skip_ws_length [of r'] skip_ws_Cons_length [OF s] l
    show ?thesis by simp
  next
    case False
    with "3.prems" v l s have "r = r'"
      by (subst (asm) parse_elements.simps) (auto split: if_splits)
    with skip_ws_Cons_length [OF s] l show ?thesis by simp
  qed
next
  case (4 s)
  from "4.prems" obtain s1 where s: "s = 0x22 # s1"
    by (subst (asm) parse_members.simps) (auto split: list.splits if_splits)
  from "4.prems" s obtain k r1 where k: "parse_chars s1 = Some (k, r1)"
    by (subst (asm) parse_members.simps) (auto split: option.splits)
  from "4.prems" s k obtain r2 where c: "skip_ws r1 = 0x3A # r2"
    by (subst (asm) parse_members.simps) (auto split: list.splits if_splits)
  from "4.prems" s k c obtain v r3 where v: "parse_value (skip_ws r2) = Some (v, r3)"
    and l: "length r3 < length (skip_ws r2)"
    by (subst (asm) parse_members.simps) (auto split: option.splits if_splits)
  from "4.prems" s k c v l obtain x r4 where x: "skip_ws r3 = x # r4"
    by (subst (asm) parse_members.simps) (auto split: list.splits)
  have bound: "length r4 < length s"
    using parse_chars_length [OF k] skip_ws_Cons_length [OF c] skip_ws_length [of r2] l
      skip_ws_Cons_length [OF x] s by simp
  show ?case
  proof (cases "x = 0x2C")
    case True
    with "4.prems" s k c v l x obtain ms' where m: "parse_members (skip_ws r4) = Some (ms', r)"
      by (subst (asm) parse_members.simps) (auto split: option.splits)
    from "4.IH"(2) [OF s _ k refl c _ v refl l x True m] skip_ws_length [of r4] bound
    show ?thesis by simp
  next
    case False
    with "4.prems" s k c v l x have "r = r4"
      by (subst (asm) parse_members.simps) (auto split: if_splits)
    with bound show ?thesis by simp
  qed
qed

text \<open>
  \<^verbatim>\<open>JSON.parse(text)\<close>: one value with white space around it and nothing else.
  \<open>None\<close> is the \<^verbatim>\<open>SyntaxError\<close> that the call throws.
\<close>

definition JSON_parse :: "jsstring \<Rightarrow> json option" where
  "JSON_parse s =
     (case parse_value (skip_ws s) of
        None \<Rightarrow> None
      | Some (v, r) \<Rightarrow> if skip_ws r = [] then Some v else None)"

section \<open>Property reads, truthiness and string conversion\<close>

text \<open>
  The exceptions that the code can meet. \<open>Error\<close> is the one the script throws
  itself, with its message; \<open>NetworkError\<close> stands for whatever a rejected
  \<^verbatim>\<open>fetch\<close> or \<^verbatim>\<open>read\<close> gives.
\<close>

datatype error =
    SyntaxError
  | TypeError
  | Error jsstring
  | NetworkError

text \<open>
  \<^verbatim>\<open>jsonData.response\<close>. Reading a property of \<^verbatim>\<open>null\<close> throws a
  \<^verbatim>\<open>TypeError\<close>; an object gives the last member of that name, or
  \<^verbatim>\<open>undefined\<close> (\<open>None\<close>); an array, a string, a number and a boolean have no
  such property.
\<close>

fun get_response :: "json \<Rightarrow> error + json option" where
  "get_response JNull = Inl TypeError"
| "get_response (JObject ms) = Inr (map_of (rev ms) (js ''response''))"
| "get_response (JBool b) = Inr None"
| "get_response (JNumber q) = Inr None"
| "get_response (JString t) = Inr None"
| "get_response (JArray vs) = Inr None"

text \<open>
  The truth value of \<^verbatim>\<open>if (jsonData.response)\<close>. A number literal stands for the
  nearest double (ties to even), which is zero exactly when the literal's magnitude is at
  most \<open>2\<^sup>-\<^sup>1\<^sup>0\<^sup>7\<^sup>5\<close>, half the least positive double.
\<close>

definition number_nonzero :: "rat \<Rightarrow> bool" where
  "number_nonzero q \<longleftrightarrow> 1 / 2 ^ 1075 < \<bar>q\<bar>"

fun truthy :: "json \<Rightarrow> bool" where
  "truthy JNull = False"
| "truthy (JBool b) = b"
| "truthy (JNumber q) = number_nonzero q"
| "truthy (JString t) = (t \<noteq> [])"
| "truthy (JArray vs) = True"
| "truthy (JObject ms) = True"

text \<open>\<^verbatim>\<open>Array.prototype.join\<close> of strings.\<close>

definition join :: "jsstring \<Rightarrow> jsstring list \<Rightarrow> jsstring" where
  "join sep xs = (case xs of [] \<Rightarrow> [] | x # r \<Rightarrow> x @ concat (map (\<lambda>y. sep @ y) r))"

definition sequence :: "'a option list \<Rightarrow> 'a list option" where
  "sequence xs = (if None \<in> set xs then None else Some (map the xs))"

text \<open>
  The string that \<^verbatim>\<open>responseText += v\<close> appends for a parsed value \<open>v\<close>, or
  \<open>None\<close> when the conversion throws a \<^verbatim>\<open>TypeError\<close>. A string is itself. An
  object is \<^verbatim>\<open>[object Object]\<close>, unless it has a member named
  \<^verbatim>\<open>toString\<close>: that member hides \<^verbatim>\<open>Object.prototype.toString\<close> and is not a
  function, so nothing converts the object. An array joins the strings of its elements
  with commas, \<^verbatim>\<open>null\<close> elements counting as empty. The digits that
  \<^verbatim>\<open>Number.prototype.toString\<close> prints for a double are not modelled: \<open>numstr\<close> stands
  for that function.
\<close>

fun ToString :: "(rat \<Rightarrow> jsstring) \<Rightarrow> json \<Rightarrow> jsstring option" where
  "ToString numstr JNull = Some (js ''null'')"
| "ToString numstr (JBool b) = Some (if b then js ''true'' else js ''false'')"
| "ToString numstr (JNumber q) = Some (numstr q)"
| "ToString numstr (JString t) = Some t"
| "ToString numstr (JObject ms) =
     (if map_of ms (js ''toString'') = None then Some (js ''[object Object]'') else None)"
| "ToString numstr (JArray vs) =
     map_option (join (js '','')) 
       (sequence (map (\<lambda>v. if v = JNull then Some [] else ToString numstr v) vs))"

section \<open>The page and the session state\<close>

text \<open>One turn of \<^verbatim>\<open>chatHistory\<close>.\<close>

record message =
  role :: jsstring
  content :: jsstring

text \<open>
  A message element of the chat view: its class name and what it holds, either the
  markup assigned to \<^verbatim>\<open>innerHTML\<close>, or one paragraph with the given text content
  (what \<^verbatim>\<open>innerHTML = "<p></p>"\<close> followed by assignments to the paragraph's
  \<^verbatim>\<open>textContent\<close> gives).
\<close>

datatype children = Html jsstring | Paragraph jsstring

record element =
  className :: jsstring
  children :: children

type_synonym File = "8 word list"

text \<open>
  A call of \<^verbatim>\<open>fetch("/api/chat", {method: "POST", ...})\<close>: with a JSON body holding
  the messages, or with form data holding the messages and the image.
\<close>

datatype request =
    JsonRequest "message list"
  | FormDataRequest "message list" File

datatype console_entry =
    Warn error jsstring
  | ConsoleError error

text \<open>
  What the network gives back. A read of the body yields a chunk (here: the text that
  \<^verbatim>\<open>decoder.decode(value, {stream: true})\<close> returns for it), the end of the stream,
  or a rejection; \<open>ReadPending\<close> is a read that never settles. The reader is the
  sequence of these results, by read number; it need not ever be done. A response
  carries \<^verbatim>\<open>response.ok\<close> and \<^verbatim>\<open>response.body\<close>, which can be
  \<^verbatim>\<open>null\<close>.
\<close>

datatype read_result = Chunk jsstring | Done | ReadFailed | ReadPending

type_synonym reader = "nat \<Rightarrow> read_result"

datatype fetch_result =
    FetchRejected
  | FetchPending
  | Response bool "reader option"

text \<open>
  The globals of the script and the parts of the page it touches. \<open>textContent_writes\<close>
  lists every text assigned to the \<^verbatim>\<open>textContent\<close> of a response paragraph, in
  order: what the display showed, step by step. \<open>requests\<close> lists the calls of
  \<^verbatim>\<open>fetch\<close>, \<open>console\<close> the calls of \<^verbatim>\<open>console.warn\<close> and
  \<^verbatim>\<open>console.error\<close>. Scroll positions depend on layout and are left out.
\<close>

record state =
  chatHistory :: "message list"
  isProcessing :: bool
  userInput_value :: jsstring
  userInput_disabled :: bool
  userInput_height :: jsstring
  userInput_focused :: bool
  sendButton_disabled :: bool
  imageInput_files :: "File list"
  imageInput_disabled :: bool
  typingIndicator_visible :: bool
  chatMessages :: "element list"
  textContent_writes :: "jsstring list"
  requests :: "request list"
  console :: "console_entry list"

section \<open>The script\<close>

text \<open>\<^verbatim>\<open>addMessageToChat(role, content)\<close>\<close>

definition addMessageToChat :: "jsstring \<Rightarrow> jsstring \<Rightarrow> state \<Rightarrow> state" where
  "addMessageToChat r c s =
     s\<lparr>chatMessages := chatMessages s @
         [\<lparr>className = js ''message '' @ r @ js ''-message'',
           children = Html (js ''<p>'' @ c @ js ''</p>'')\<rparr>]\<rparr>"

text \<open>
  \<^verbatim>\<open>assistantMessageEl.querySelector("p").textContent = responseText\<close>, where the
  element is the child of the chat view at position \<open>el\<close>.
\<close>

definition set_textContent :: "nat \<Rightarrow> jsstring \<Rightarrow> state \<Rightarrow> state" where
  "set_textContent el t s =
     s\<lparr>chatMessages := (chatMessages s)
          [el := (chatMessages s ! el)\<lparr>children := Paragraph t\<rparr>],
       textContent_writes := textContent_writes s @ [t]\<rparr>"

text \<open>
  The body of the \<^verbatim>\<open>try\<close> inside the loop over the lines, for one line: either
  the exception it throws, or the state and \<^verbatim>\<open>responseText\<close> after it.
\<close>

definition try_line ::
  "(rat \<Rightarrow> jsstring) \<Rightarrow> nat \<Rightarrow> jsstring \<Rightarrow> state \<times> jsstring \<Rightarrow> error + state \<times> jsstring" where
  "try_line numstr el line = (\<lambda>(s, responseText).
     case JSON_parse line of
       None \<Rightarrow> Inl SyntaxError
     | Some jsonData \<Rightarrow>
         (case get_response jsonData of
            Inl e \<Rightarrow> Inl e
          | Inr None \<Rightarrow> Inr (s, responseText)
          | Inr (Some v) \<Rightarrow>
              if truthy v then
                (case ToString numstr v of
                   None \<Rightarrow> Inl TypeError
                 | Some t \<Rightarrow>
                     Inr (set_textContent el (responseText @ t) s, responseText @ t))
              else Inr (s, responseText)))"

text \<open>One line, with the \<^verbatim>\<open>catch\<close> that logs the exception and goes on.\<close>

definition process_line ::
  "(rat \<Rightarrow> jsstring) \<Rightarrow> nat \<Rightarrow> jsstring \<Rightarrow> state \<times> jsstring \<Rightarrow> state \<times> jsstring" where
  "process_line numstr el line = (\<lambda>(s, responseText).
     case try_line numstr el line (s, responseText) of
       Inr r \<Rightarrow> r
     | Inl e \<Rightarrow> (s\<lparr>console := console s @ [Warn e line]\<rparr>, responseText))"

text \<open>\<^verbatim>\<open>for (const line of chunk.split("\n"))\<close>\<close>

definition process_chunk ::
  "(rat \<Rightarrow> jsstring) \<Rightarrow> nat \<Rightarrow> jsstring \<Rightarrow> state \<times> jsstring \<Rightarrow> state \<times> jsstring" where
  "process_chunk numstr el chunk = fold (process_line numstr el) (split LF chunk)"

text \<open>
  The \<^verbatim>\<open>while (true)\<close> loop, from read number \<open>i\<close> on. \<open>None\<close>: the loop never
  ends. \<open>Inl\<close>: a read was rejected, with the state at that moment. \<open>Inr\<close>: the
  stream is done.
\<close>

partial_function (option) read_loop ::
  "(rat \<Rightarrow> jsstring) \<Rightarrow> nat \<Rightarrow> reader \<Rightarrow> nat \<Rightarrow> state \<times> jsstring
     \<Rightarrow> (error \<times> state + state \<times> jsstring) option" where
  "read_loop numstr el rd i st =
     (case rd i of
        Done \<Rightarrow> Some (Inr st)
      | ReadFailed \<Rightarrow> Some (Inl (NetworkError, fst st))
      | ReadPending \<Rightarrow> None
      | Chunk chunk \<Rightarrow> read_loop numstr el rd (Suc i) (process_chunk numstr el chunk st))"

declare read_loop.simps [code]

text \<open>\<^verbatim>\<open>imageInput.files[0]\<close>\<close>

definition imageFile_of :: "state \<Rightarrow> File option" where
  "imageFile_of s = (case imageInput_files s of [] \<Rightarrow> None | f # fs \<Rightarrow> Some f)"

text \<open>
  The \<^verbatim>\<open>try\<close> block of \<^verbatim>\<open>sendMessage\<close>: the placeholder element of the
  response, the request, the status check, the loop and the push of the response.
  \<open>None\<close>: it never ends. \<open>Inl\<close>: it throws, with the state at that moment.
\<close>

definition try_block ::
  "(rat \<Rightarrow> jsstring) \<Rightarrow> fetch_result \<Rightarrow> File option \<Rightarrow> state \<Rightarrow> (error \<times> state + state) option" where
  "try_block numstr net imageFile s =
     (let el = length (chatMessages s);
          s1 = s\<lparr>chatMessages := chatMessages s @
                 [\<lparr>className = js ''message assistant-message'', children = Paragraph []\<rparr>]\<rparr>;
          s2 = s1\<lparr>requests := requests s1 @
                 [case imageFile of
                    Some f \<Rightarrow> FormDataRequest (chatHistory s1) f
                  | None \<Rightarrow> JsonRequest (chatHistory s1)]\<rparr>
      in case net of
           FetchPending \<Rightarrow> None
         | FetchRejected \<Rightarrow> Some (Inl (NetworkError, s2))
         | Response ok body \<Rightarrow>
             if \<not> ok then Some (Inl (Error (js ''Failed to get response''), s2))
             else
               (case body of
                  None \<Rightarrow> Some (Inl (TypeError, s2))
                | Some rd \<Rightarrow>
                    (case read_loop numstr el rd 0 (s2, []) of
                       None \<Rightarrow> None
                     | Some (Inl (e, s3)) \<Rightarrow> Some (Inl (e, s3))
                     | Some (Inr (s3, responseText)) \<Rightarrow>
                         Some (Inr (s3\<lparr>chatHistory := chatHistory s3 @
                           [\<lparr>role = js ''assistant'', content = responseText\<rparr>]\<rparr>)))))"

definition catch_block :: "error \<Rightarrow> state \<Rightarrow> state" where
  "catch_block e s =
     addMessageToChat (js ''assistant'')
       (js ''Sorry, there was an error processing your request.'')
       (s\<lparr>console := console s @ [ConsoleError e]\<rparr>)"

definition finally_block :: "state \<Rightarrow> state" where
  "finally_block s =
     s\<lparr>typingIndicator_visible := False,
       isProcessing := False,
       userInput_disabled := False,
       sendButton_disabled := False,
       imageInput_disabled := False,
       userInput_focused := True\<rparr>"

text \<open>
  The statements of \<^verbatim>\<open>sendMessage\<close> between the guard and the \<^verbatim>\<open>try\<close>:
  the flag is set and the controls are disabled, the user turn is shown, the inputs are
  cleared, the typing indicator is shown and the user turn is recorded.
\<close>

definition before_try :: "jsstring \<Rightarrow> File option \<Rightarrow> state \<Rightarrow> state" where
  "before_try message imageFile s =
     (let s1 = s\<lparr>isProcessing := True,
                 userInput_disabled := True,
                 sendButton_disabled := True,
                 imageInput_disabled := True\<rparr>;
          userMsgContent =
            (if imageFile \<noteq> None
             then message @
               (if message \<noteq> [] then js ''\<newline>[Image attached]''
                else js ''[Image attached]'')
             else message);
          s2 = addMessageToChat (js ''user'') userMsgContent s1;
          s3 = s2\<lparr>userInput_value := [],
                  userInput_height := js ''auto'',
                  imageInput_files := []\<rparr>;
          s4 = s3\<lparr>typingIndicator_visible := True\<rparr>
      in s4\<lparr>chatHistory := chatHistory s4 @
           [\<lparr>role = js ''user'', content = message\<rparr>]\<rparr>)"

text \<open>
  \<^verbatim>\<open>sendMessage()\<close>, for the answer \<open>net\<close> of the network to the request it makes.
  \<open>None\<close>: the call never returns.
\<close>

definition sendMessage :: "(rat \<Rightarrow> jsstring) \<Rightarrow> fetch_result \<Rightarrow> state \<Rightarrow> state option" where
  "sendMessage numstr net s =
     (let message = trim (userInput_value s);
          imageFile = imageFile_of s
      in if (message = [] \<and> imageFile = None) \<or> isProcessing s then Some s
         else
           (case try_block numstr net imageFile (before_try message imageFile s) of
              None \<Rightarrow> None
            | Some (Inr s6) \<Rightarrow> Some (finally_block s6)
            | Some (Inl (e, s6)) \<Rightarrow> Some (finally_block (catch_block e s6))))"

section \<open>The page when the script starts\<close>

text \<open>
  The globals as the script initialises them, and the page as
  \<^verbatim>\<open>index.html\<close> gives it: one greeting in the chat view, an empty text area with
  the focus, no image chosen, the typing indicator hidden.
\<close>

definition initial_state :: state where
  "initial_state =
     \<lparr>chatHistory =
        [\<lparr>role = js ''assistant'',
          content = js ''Hello! I'm an LLM chat app powered by Cloudflare Workers AI. How can I help you today?''\<rparr>],
      isProcessing = False,
      userInput_value = [],
      userInput_disabled = False,
      userInput_height = [],
      userInput_focused = True,
      sendButton_disabled = False,
      imageInput_files = [],
      imageInput_disabled = False,
      typingIndicator_visible = False,
      chatMessages =
        [\<lparr>className = js ''message assistant-message'',
          children = Html (js ''\<newline>          <p>\<newline>            Hello! I'm an LLM chat app powered by Cloudflare Workers AI. How can\<newline>            I help you today?\<newline>          </p>\<newline>        '')\<rparr>],
      textContent_writes = [],
      requests = [],
      console = []\<rparr>"

section \<open>Notions for stating the properties\<close>

text \<open>
  A reader \<open>delivers cs e\<close> when its reads give the chunks \<open>cs\<close> in order and then
  \<open>e\<close>. \<open>stream_of cs e\<close> is the plain reader that does so.
\<close>

definition delivers :: "reader \<Rightarrow> jsstring list \<Rightarrow> read_result \<Rightarrow> bool" where
  "delivers rd cs e \<longleftrightarrow> map rd [0..<length cs] = map Chunk cs \<and> rd (length cs) = e"

definition stream_of :: "jsstring list \<Rightarrow> read_result \<Rightarrow> reader" where
  "stream_of cs e i = (if i < length cs then Chunk (cs ! i) else e)"

text \<open>The candidate lines of a stream, in receive order.\<close>

definition lines_of :: "jsstring list \<Rightarrow> jsstring list" where
  "lines_of cs = concat (map (split LF) cs)"

text \<open>
  The text that a line contributes: the string form of the \<^verbatim>\<open>response\<close> member
  of the object it parses to, when that member is truthy and converts to a string.
\<close>

definition response_text :: "(rat \<Rightarrow> jsstring) \<Rightarrow> jsstring \<Rightarrow> jsstring option" where
  "response_text numstr line =
     (case JSON_parse line of
        Some (JObject ms) \<Rightarrow>
          (case map_of (rev ms) (js ''response'') of
             Some v \<Rightarrow> if truthy v then ToString numstr v else None
           | None \<Rightarrow> None)
      | _ \<Rightarrow> None)"

definition response_texts :: "(rat \<Rightarrow> jsstring) \<Rightarrow> jsstring list \<Rightarrow> jsstring list" where
  "response_texts numstr cs = List.map_filter (response_text numstr) (lines_of cs)"

text \<open>
  The text field named \<^verbatim>\<open>response\<close> of a line that parses as a JSON object, as
  the specification words it: by presence of a text field, whatever its content.
\<close>

definition spec_response_text :: "jsstring \<Rightarrow> jsstring option" where
  "spec_response_text line =
     (case JSON_parse line of
        Some (JObject ms) \<Rightarrow>
          (case map_of (rev ms) (js ''response'') of
             Some (JString t) \<Rightarrow> Some t
           | _ \<Rightarrow> None)
      | _ \<Rightarrow> None)"

definition spec_response_texts :: "jsstring list \<Rightarrow> jsstring list" where
  "spec_response_texts cs = List.map_filter spec_response_text (lines_of cs)"

text \<open>
  A line carries text only when the object it parses to has no \<^verbatim>\<open>response\<close>
  member or one that is a string; a line that does not parse to an object carries
  nothing. A stream is of text fields only when all its candidate lines are such.
  \<open>nonempty\<close> keeps the texts that are not empty.
\<close>

definition text_line :: "jsstring \<Rightarrow> bool" where
  "text_line line =
     (case JSON_parse line of
        Some (JObject ms) \<Rightarrow>
          (case map_of (rev ms) (js ''response'') of
             Some (JString t) \<Rightarrow> True
           | Some v \<Rightarrow> False
           | None \<Rightarrow> True)
      | _ \<Rightarrow> True)"

definition text_only :: "jsstring list \<Rightarrow> bool" where
  "text_only cs = list_all text_line (lines_of cs)"

definition nonempty :: "jsstring list \<Rightarrow> jsstring list" where
  "nonempty ts = filter (\<lambda>t. t \<noteq> []) ts"

text \<open>The texts shown one after the other when the deltas \<open>ds\<close> are appended to \<open>t\<close>.\<close>

fun running :: "jsstring \<Rightarrow> jsstring list \<Rightarrow> jsstring list" where
  "running t [] = []"
| "running t (d # ds) = (t @ d) # running (t @ d) ds"

text \<open>
  The other way round: what each of the texts \<open>ws\<close>, shown one after the other after
  \<open>t\<close>, adds to the one before it.
\<close>

fun deltas :: "jsstring \<Rightarrow> jsstring list \<Rightarrow> jsstring list" where
  "deltas t [] = []"
| "deltas t (w # ws) = drop (length t) w # deltas w ws"

text \<open>
  What the assembler makes of the chunks \<open>cs\<close> of a stream that ends: the final
  \<^verbatim>\<open>responseText\<close> and the texts it displayed on the way.
\<close>

definition assemble ::
  "(rat \<Rightarrow> jsstring) \<Rightarrow> nat \<Rightarrow> state \<Rightarrow> jsstring list \<Rightarrow> (jsstring \<times> jsstring list) option" where
  "assemble numstr el s cs =
     (case read_loop numstr el (stream_of cs Done) 0 (s, []) of
        Some (Inr (s', text)) \<Rightarrow>
          Some (text, drop (length (textContent_writes s)) (textContent_writes s'))
      | _ \<Rightarrow> None)"

text \<open>A chunking is line-aligned when every chunk but the last is empty or ends with a line feed.\<close>

definition line_aligned :: "jsstring list \<Rightarrow> bool" where
  "line_aligned cs \<longleftrightarrow> list_all (\<lambda>c. c = [] \<or> last c = LF) (butlast cs)"

text \<open>A submission that passes the guard of \<^verbatim>\<open>sendMessage\<close>.\<close>

definition accepted :: "state \<Rightarrow> bool" where
  "accepted s \<longleftrightarrow>
     (trim (userInput_value s) \<noteq> [] \<or> imageInput_files s \<noteq> []) \<and> \<not> isProcessing s"

text \<open>The user turn as the chat view shows it, and as the history records it.\<close>

definition shown_user_text :: "state \<Rightarrow> jsstring" where
  "shown_user_text s =
     (if imageInput_files s = [] then trim (userInput_value s)
      else if trim (userInput_value s) = [] then js ''[Image attached]''
      else trim (userInput_value s) @ js ''\<newline>[Image attached]'')"

definition user_element :: "state \<Rightarrow> element" where
  "user_element s =
     \<lparr>className = js ''message user-message'',
      children = Html (js ''<p>'' @ shown_user_text s @ js ''</p>'')\<rparr>"

definition user_message :: "state \<Rightarrow> message" where
  "user_message s = \<lparr>role = js ''user'', content = trim (userInput_value s)\<rparr>"

definition fallback_element :: element where
  "fallback_element =
     \<lparr>className = js ''message assistant-message'',
      children = Html (js ''<p>Sorry, there was an error processing your request.</p>'')\<rparr>"

text \<open>The empty element that will show the response, and the request that is sent.\<close>

definition placeholder :: element where
  "placeholder = \<lparr>className = js ''message assistant-message'', children = Paragraph []\<rparr>"

definition request_of :: "state \<Rightarrow> request" where
  "request_of s =
     (case imageFile_of s of
        Some f \<Rightarrow> FormDataRequest (chatHistory s @ [user_message s]) f
      | None \<Rightarrow> JsonRequest (chatHistory s @ [user_message s]))"

text \<open>
  The state while the request of an accepted submission is pending: the user turn is
  shown and recorded, the controls are disabled, the empty placeholder of the response
  is in the chat view (at position \<open>Suc (length (chatMessages s))\<close>) and the
  request is out. \<open>sendMessage_accepted\<close> below shows that this is the state in which
  the script waits for the response.
\<close>

definition in_flight :: "state \<Rightarrow> state" where
  "in_flight s =
     s\<lparr>isProcessing := True,
       userInput_disabled := True,
       sendButton_disabled := True,
       imageInput_disabled := True,
       userInput_value := [],
       userInput_height := js ''auto'',
       imageInput_files := [],
       typingIndicator_visible := True,
       chatHistory := chatHistory s @ [user_message s],
       chatMessages := chatMessages s @ [user_element s, placeholder],
       requests := requests s @ [request_of s]\<rparr>"

text \<open>
  For the examples: the page with \<^verbatim>\<open>hi\<close> typed into the text area, and a
  number printer for streams that hold no number.
\<close>

definition asking :: state where
  "asking = initial_state\<lparr>userInput_value := js ''hi''\<rparr>"

definition no_numbers :: "rat \<Rightarrow> jsstring" where
  "no_numbers q = []"

section \<open>Lemmas\<close>

subsection \<open>Splitting\<close>

lemma split_from_append_sep:
  "split_from sep p (xs @ sep # ys) = split_from sep p xs @ split_from sep [] ys"
  by (induction xs arbitrary: p) auto

lemma split_append_sep: "split sep (xs @ sep # ys) = split sep xs @ split sep ys"
  by (simp add: split_def split_from_append_sep)

lemma split_Nil: "split sep [] = [[]]"
  by (simp add: split_def)

lemma split_snoc_sep: "split sep (xs @ [sep]) = split sep xs @ [[]]"
  using split_append_sep [of sep xs "[]"] by (simp add: split_Nil)

subsection \<open>One line\<close>

lemma JSON_parse_Nil: "JSON_parse [] = None"
  by (simp add: JSON_parse_def skip_ws_def)

lemma response_text_Nil: "response_text numstr [] = None"
  by (simp add: response_text_def JSON_parse_Nil)

lemma process_line_Some:
  assumes "response_text numstr line = Some d"
  shows "process_line numstr el line (s, t) = (set_textContent el (t @ d) s, t @ d)"
  using assms
  by (auto simp: response_text_def process_line_def try_line_def
      split: option.splits json.splits if_splits)

lemma process_line_None:
  assumes "response_text numstr line = None"
  shows "\<exists>c. process_line numstr el line (s, t) = (s\<lparr>console := c\<rparr>, t)"
proof (cases "try_line numstr el line (s, t)")
  case (Inl e)
  then show ?thesis by (auto simp: process_line_def)
next
  case (Inr r)
  with assms have "r = (s, t)"
    by (auto simp: response_text_def try_line_def
        split: option.splits json.splits if_splits sum.splits)
  with Inr have "process_line numstr el line (s, t) = (s\<lparr>console := console s\<rparr>, t)"
    by (simp add: process_line_def)
  then show ?thesis by blast
qed

subsection \<open>The loop over the lines\<close>

lemma fold_lines:
  "\<exists>c. fold (process_line numstr el) ls (s, t) =
     (s\<lparr>chatMessages := (chatMessages s)
          [el := (chatMessages s ! el)\<lparr>children :=
             if List.map_filter (response_text numstr) ls = []
             then children (chatMessages s ! el)
             else Paragraph (t @ concat (List.map_filter (response_text numstr) ls))\<rparr>],
        textContent_writes :=
          textContent_writes s @ running t (List.map_filter (response_text numstr) ls),
        console := c\<rparr>,
      t @ concat (List.map_filter (response_text numstr) ls))"
proof (induction ls arbitrary: s t)
  case Nil
  show ?case
    by (intro exI [of _ "console s"]) simp
next
  case (Cons l ls)
  show ?case
  proof (cases "response_text numstr l")
    case None
    obtain c where l: "process_line numstr el l (s, t) = (s\<lparr>console := c\<rparr>, t)"
      using process_line_None [OF None] by blast
    from Cons.IH [of "s\<lparr>console := c\<rparr>" t] show ?thesis
      by (simp add: l None cong: if_cong split del: if_split)
  next
    case (Some d)
    have l: "process_line numstr el l (s, t) = (set_textContent el (t @ d) s, t @ d)"
      by (rule process_line_Some [OF Some])
    show ?thesis
    proof (cases "el < length (chatMessages s)")
      case True
      with Cons.IH [of "set_textContent el (t @ d) s" "t @ d"] show ?thesis
        by (cases "List.map_filter (response_text numstr) ls = []")
          (simp_all add: l Some set_textContent_def)
    next
      case False
      with Cons.IH [of "set_textContent el (t @ d) s" "t @ d"] show ?thesis
        by (simp add: l Some set_textContent_def list_update_beyond cong: if_cong)
    qed
  qed
qed

lemma fold_chunks:
  "fold (process_chunk numstr el) cs st = fold (process_line numstr el) (lines_of cs) st"
  by (induction cs arbitrary: st) (simp_all add: lines_of_def process_chunk_def)

lemma fold_chunks_state:
  "\<exists>c. fold (process_chunk numstr el) cs (s, t) =
     (s\<lparr>chatMessages := (chatMessages s)
          [el := (chatMessages s ! el)\<lparr>children :=
             if response_texts numstr cs = []
             then children (chatMessages s ! el)
             else Paragraph (t @ concat (response_texts numstr cs))\<rparr>],
        textContent_writes := textContent_writes s @ running t (response_texts numstr cs),
        console := c\<rparr>,
      t @ concat (response_texts numstr cs))"
  unfolding fold_chunks response_texts_def by (rule fold_lines)

subsection \<open>The loop over the reads\<close>

lemma read_loop_chunks:
  "map rd [k..<k + length cs] = map Chunk cs \<Longrightarrow>
   read_loop numstr el rd k st =
   read_loop numstr el rd (k + length cs) (fold (process_chunk numstr el) cs st)"
proof (induction cs arbitrary: k st)
  case Nil
  then show ?case by simp
next
  case (Cons c cs)
  from Cons.prems have k: "rd k = Chunk c"
    and rest: "map rd [Suc k..<Suc k + length cs] = map Chunk cs"
    by (simp_all del: upt_Suc add: upt_conv_Cons)
  have "read_loop numstr el rd k st = read_loop numstr el rd (Suc k) (process_chunk numstr el c st)"
    by (subst read_loop.simps) (simp add: k)
  also have "\<dots> = read_loop numstr el rd (Suc k + length cs)
      (fold (process_chunk numstr el) cs (process_chunk numstr el c st))"
    by (rule Cons.IH [OF rest])
  finally show ?case by simp
qed

lemma read_loop_delivers:
  assumes "delivers rd cs e"
  shows "read_loop numstr el rd 0 st =
    (case e of
       Done \<Rightarrow> Some (Inr (fold (process_chunk numstr el) cs st))
     | ReadFailed \<Rightarrow> Some (Inl (NetworkError, fst (fold (process_chunk numstr el) cs st)))
     | ReadPending \<Rightarrow> None
     | Chunk c \<Rightarrow> read_loop numstr el rd (Suc (length cs))
         (process_chunk numstr el c (fold (process_chunk numstr el) cs st)))"
proof -
  from assms have m: "map rd [0..<0 + length cs] = map Chunk cs" and e: "rd (length cs) = e"
    by (simp_all add: delivers_def)
  show ?thesis
    unfolding read_loop_chunks [OF m]
    by (subst read_loop.simps) (simp add: e split: read_result.splits)
qed

lemma delivers_stream_of: "delivers (stream_of cs e) cs e"
  unfolding delivers_def by (auto intro!: nth_equalityI simp: stream_of_def)

lemma read_loop_returns_from:
  assumes "read_loop numstr el rd k st = Some r"
  shows "\<exists>cs. map rd [k..<k + length cs] = map Chunk cs \<and>
    (rd (k + length cs) = Done \<or> rd (k + length cs) = ReadFailed)"
  using assms
proof (induction rule: read_loop.raw_induct [rotated, consumes 1, case_names step])
  case (step loop numstr el rd i st r)
  show ?case
  proof (cases "rd i")
    case (Chunk c)
    with step(2) have "loop numstr el rd (Suc i) (process_chunk numstr el c st) = Some r"
      by simp
    from step(1) [OF this] obtain cs where
      cs: "map rd [Suc i..<Suc i + length cs] = map Chunk cs"
      and e: "rd (Suc i + length cs) = Done \<or> rd (Suc i + length cs) = ReadFailed"
      by blast
    have "map rd [i..<i + length (c # cs)] = map Chunk (c # cs)"
      using cs Chunk by (simp del: upt_Suc add: upt_conv_Cons)
    moreover have "rd (i + length (c # cs)) = Done \<or> rd (i + length (c # cs)) = ReadFailed"
      using e by simp
    ultimately show ?thesis by blast
  next
    case Done
    then show ?thesis by (intro exI [of _ "[]"]) simp
  next
    case ReadFailed
    then show ?thesis by (intro exI [of _ "[]"]) simp
  next
    case ReadPending
    with step(2) show ?thesis by simp
  qed
qed

lemma read_loop_returns:
  assumes "read_loop numstr el rd 0 st = Some r"
  shows "\<exists>cs. delivers rd cs Done \<or> delivers rd cs ReadFailed"
  using read_loop_returns_from [OF assms] by (auto simp: delivers_def)

text \<open>The loop leaves \<open>isProcessing\<close> as it is.\<close>

lemma read_loop_isProcessing:
  assumes "read_loop numstr el rd 0 (s, t) = Some r"
  shows "isProcessing (case r of Inl (e, s') \<Rightarrow> s' | Inr (s', text) \<Rightarrow> s') = isProcessing s"
proof -
  obtain cs where "delivers rd cs Done \<or> delivers rd cs ReadFailed"
    using read_loop_returns [OF assms] by blast
  moreover obtain s1 t1 where f: "fold (process_chunk numstr el) cs (s, t) = (s1, t1)"
    and i: "isProcessing s1 = isProcessing s"
    using fold_chunks_state [of numstr el cs s t] by auto
  ultimately show ?thesis
    using assms by (auto simp: read_loop_delivers f i)
qed

subsection \<open>The whole call\<close>

text \<open>The \<^verbatim>\<open>try\<close> block leaves \<open>isProcessing\<close> as it is.\<close>

lemma try_block_isProcessing:
  assumes "try_block numstr net imageFile s = Some r"
  shows "isProcessing (case r of Inl (e, s') \<Rightarrow> s' | Inr s' \<Rightarrow> s') = isProcessing s"
proof (cases net)
  case FetchRejected
  with assms show ?thesis
    by (auto simp: try_block_def Let_def)
next
  case FetchPending
  with assms show ?thesis
    by (simp add: try_block_def Let_def)
next
  case (Response ok body)
  show ?thesis
  proof (cases "ok \<and> body \<noteq> None")
    case False
    with assms Response show ?thesis
      by (auto simp: try_block_def Let_def split: if_splits)
  next
    case True
    then obtain rd where b: "ok" "body = Some rd"
      by auto
    let ?s2 = "s\<lparr>chatMessages := chatMessages s @
        [\<lparr>className = js ''message assistant-message'', children = Paragraph []\<rparr>],
      requests := requests s @
        [case imageFile of
           Some f \<Rightarrow> FormDataRequest (chatHistory s) f
         | None \<Rightarrow> JsonRequest (chatHistory s)]\<rparr>"
    from assms Response b obtain r' where
      l: "read_loop numstr (length (chatMessages s)) rd 0 (?s2, []) = Some r'"
      and r: "r = (case r' of Inl (e, s3) \<Rightarrow> Inl (e, s3)
        | Inr (s3, responseText) \<Rightarrow> Inr (s3\<lparr>chatHistory := chatHistory s3 @
            [\<lparr>role = js ''assistant'', content = responseText\<rparr>]\<rparr>))"
      by (auto simp: try_block_def Let_def split: option.splits sum.splits prod.splits)
    from read_loop_isProcessing [OF l] r show ?thesis
      by (auto split: sum.splits prod.splits)
  qed
qed

lemma sendMessage_accepted:
  assumes "accepted s"
  shows "sendMessage numstr net s =
    (case net of
       FetchPending \<Rightarrow> None
     | FetchRejected \<Rightarrow> Some (finally_block (catch_block NetworkError (in_flight s)))
     | Response ok body \<Rightarrow>
         if \<not> ok
         then Some (finally_block (catch_block (Error (js ''Failed to get response'')) (in_flight s)))
         else
           (case body of
              None \<Rightarrow> Some (finally_block (catch_block TypeError (in_flight s)))
            | Some rd \<Rightarrow>
                (case read_loop numstr (Suc (length (chatMessages s))) rd 0 (in_flight s, []) of
                   None \<Rightarrow> None
                 | Some (Inl (e, s3)) \<Rightarrow> Some (finally_block (catch_block e s3))
                 | Some (Inr (s3, text)) \<Rightarrow>
                     Some (finally_block (s3\<lparr>chatHistory := chatHistory s3 @
                       [\<lparr>role = js ''assistant'', content = text\<rparr>]\<rparr>)))))"
proof -
  have guard: "\<not> ((trim (userInput_value s) = [] \<and> imageFile_of s = None) \<or> isProcessing s)"
    using assms by (auto simp: accepted_def imageFile_of_def split: list.splits)
  have shown: "(if imageFile_of s \<noteq> None
       then trim (userInput_value s) @
         (if trim (userInput_value s) \<noteq> [] then js ''\<newline>[Image attached]''
          else js ''[Image attached]'')
       else trim (userInput_value s)) = shown_user_text s"
    by (auto simp: shown_user_text_def imageFile_of_def split: list.splits)
  show ?thesis
    unfolding sendMessage_def before_try_def Let_def try_block_def
    using guard
    apply (simp only: if_False shown)
    apply (simp add: in_flight_def addMessageToChat_def user_element_def user_message_def
        placeholder_def request_of_def imageFile_of_def js_def
        split: fetch_result.splits option.splits sum.splits prod.splits list.splits)
    done
qed

text \<open>The element that shows the response, with the text accumulated so far.\<close>

lemma loop_from_in_flight:
  "\<exists>c. fold (process_chunk numstr (Suc (length (chatMessages s)))) cs (in_flight s, []) =
     ((in_flight s)\<lparr>chatMessages := chatMessages s @
          [user_element s, placeholder\<lparr>children := Paragraph (concat (response_texts numstr cs))\<rparr>],
        textContent_writes := textContent_writes s @ running [] (response_texts numstr cs),
        console := c\<rparr>,
      concat (response_texts numstr cs))"
proof -
  let ?xs = "chatMessages s @ [user_element s, placeholder]"
  let ?el = "Suc (length (chatMessages s))"
  obtain c where
    "fold (process_chunk numstr ?el) cs (in_flight s, []) =
       ((in_flight s)\<lparr>chatMessages := (chatMessages (in_flight s))
            [?el := (chatMessages (in_flight s) ! ?el)\<lparr>children :=
               if response_texts numstr cs = []
               then children (chatMessages (in_flight s) ! ?el)
               else Paragraph ([] @ concat (response_texts numstr cs))\<rparr>],
          textContent_writes :=
            textContent_writes (in_flight s) @ running [] (response_texts numstr cs),
          console := c\<rparr>,
        [] @ concat (response_texts numstr cs))"
    using fold_chunks_state [of numstr ?el cs "in_flight s" "[]"] by blast
  moreover have "chatMessages (in_flight s) = ?xs"
    and "textContent_writes (in_flight s) = textContent_writes s"
    by (simp_all add: in_flight_def)
  moreover have "?xs ! ?el = placeholder"
    by (simp add: nth_append)
  moreover have "?xs[?el := e] = chatMessages s @ [user_element s, e]" for e
    by (simp add: list_update_append)
  ultimately show ?thesis
    by (cases "response_texts numstr cs = []") (auto simp: placeholder_def)
qed

lemma sendMessage_done:
  assumes "accepted s" and "delivers rd cs Done"
  shows "\<exists>c. sendMessage numstr (Response True (Some rd)) s =
    Some (finally_block
      ((in_flight s)\<lparr>chatMessages := chatMessages s @
           [user_element s, placeholder\<lparr>children := Paragraph (concat (response_texts numstr cs))\<rparr>],
         textContent_writes := textContent_writes s @ running [] (response_texts numstr cs),
         console := c,
         chatHistory := chatHistory s @
           [user_message s, \<lparr>role = js ''assistant'', content = concat (response_texts numstr cs)\<rparr>]\<rparr>))"
proof -
  obtain c where l:
    "fold (process_chunk numstr (Suc (length (chatMessages s)))) cs (in_flight s, []) =
     ((in_flight s)\<lparr>chatMessages := chatMessages s @
          [user_element s, placeholder\<lparr>children := Paragraph (concat (response_texts numstr cs))\<rparr>],
        textContent_writes := textContent_writes s @ running [] (response_texts numstr cs),
        console := c\<rparr>,
      concat (response_texts numstr cs))"
    using loop_from_in_flight by blast
  have "sendMessage numstr (Response True (Some rd)) s =
    Some (finally_block
      ((in_flight s)\<lparr>chatMessages := chatMessages s @
           [user_element s, placeholder\<lparr>children := Paragraph (concat (response_texts numstr cs))\<rparr>],
         textContent_writes := textContent_writes s @ running [] (response_texts numstr cs),
         console := c,
         chatHistory := chatHistory s @
           [user_message s, \<lparr>role = js ''assistant'', content = concat (response_texts numstr cs)\<rparr>]\<rparr>))"
    by (simp add: sendMessage_accepted [OF assms(1)] read_loop_delivers [OF assms(2)] l)
      (simp add: in_flight_def)
  then show ?thesis by blast
qed

lemma sendMessage_read_failed:
  assumes "accepted s" and "delivers rd cs ReadFailed"
  shows "\<exists>c. sendMessage numstr (Response True (Some rd)) s =
    Some (finally_block (catch_block NetworkError
      ((in_flight s)\<lparr>chatMessages := chatMessages s @
           [user_element s, placeholder\<lparr>children := Paragraph (concat (response_texts numstr cs))\<rparr>],
         textContent_writes := textContent_writes s @ running [] (response_texts numstr cs),
         console := c\<rparr>)))"
proof -
  obtain c where l:
    "fold (process_chunk numstr (Suc (length (chatMessages s)))) cs (in_flight s, []) =
     ((in_flight s)\<lparr>chatMessages := chatMessages s @
          [user_element s, placeholder\<lparr>children := Paragraph (concat (response_texts numstr cs))\<rparr>],
        textContent_writes := textContent_writes s @ running [] (response_texts numstr cs),
        console := c\<rparr>,
      concat (response_texts numstr cs))"
    using loop_from_in_flight by blast
  have "sendMessage numstr (Response True (Some rd)) s =
    Some (finally_block (catch_block NetworkError
      ((in_flight s)\<lparr>chatMessages := chatMessages s @
           [user_element s, placeholder\<lparr>children := Paragraph (concat (response_texts numstr cs))\<rparr>],
         textContent_writes := textContent_writes s @ running [] (response_texts numstr cs),
         console := c\<rparr>)))"
    by (simp add: sendMessage_accepted [OF assms(1)] read_loop_delivers [OF assms(2)] l)
  then show ?thesis by blast
qed

text \<open>
  The calls that fail: the request is rejected, the status is not a success, the
  response has no body, or a read of the body is rejected after the chunks \<open>cs\<close>.
\<close>

lemma sendMessage_failure:
  assumes "accepted s"
    and "net = FetchRejected \<and> cs = [] \<or> net = Response False body \<and> cs = [] \<or>
      net = Response True None \<and> cs = [] \<or>
      net = Response True (Some rd) \<and> delivers rd cs ReadFailed"
  shows "\<exists>s'. sendMessage numstr net s = Some s' \<and>
    \<not> isProcessing s' \<and>
    chatHistory s' = chatHistory s @ [user_message s] \<and>
    chatMessages s' = chatMessages s @
      [user_element s, placeholder\<lparr>children := Paragraph (concat (response_texts numstr cs))\<rparr>,
       fallback_element]"
proof -
  have empty: "response_texts numstr [] = []"
    by (simp add: response_texts_def lines_of_def)
  from assms(2) consider
    "net = FetchRejected" "cs = []" | "net = Response False body" "cs = []" |
    "net = Response True None" "cs = []" |
    "net = Response True (Some rd)" "delivers rd cs ReadFailed"
    by blast
  then show ?thesis
  proof cases
    case 1
    then show ?thesis
      by (simp add: sendMessage_accepted [OF assms(1)] empty finally_block_def catch_block_def
          addMessageToChat_def in_flight_def fallback_element_def placeholder_def js_def)
  next
    case 2
    then show ?thesis
      by (simp add: sendMessage_accepted [OF assms(1)] empty finally_block_def catch_block_def
          addMessageToChat_def in_flight_def fallback_element_def placeholder_def js_def)
  next
    case 3
    then show ?thesis
      by (simp add: sendMessage_accepted [OF assms(1)] empty finally_block_def catch_block_def
          addMessageToChat_def in_flight_def fallback_element_def placeholder_def js_def)
  next
    case 4
    from sendMessage_read_failed [OF assms(1) 4(2), of numstr] 4(1) show ?thesis
      by (auto simp: finally_block_def catch_block_def addMessageToChat_def in_flight_def
          fallback_element_def js_def)
  qed
qed

text \<open>What every call that returns has done.\<close>

lemma sendMessage_returns:
  assumes "accepted s" and "sendMessage numstr net s = Some s'"
  shows "\<not> isProcessing s' \<and>
    (\<exists>text.
      (chatHistory s' = chatHistory s @ [user_message s] \<and>
       chatMessages s' = chatMessages s @
         [user_element s, placeholder\<lparr>children := Paragraph text\<rparr>, fallback_element]) \<or>
      (chatHistory s' = chatHistory s @
         [user_message s, \<lparr>role = js ''assistant'', content = text\<rparr>] \<and>
       chatMessages s' = chatMessages s @
         [user_element s, placeholder\<lparr>children := Paragraph text\<rparr>]))"
proof -
  consider "net = FetchRejected" | "net = FetchPending" | body where "net = Response False body" |
    "net = Response True None" | rd where "net = Response True (Some rd)"
    by (cases net) (auto, metis option.exhaust)
  then show ?thesis
  proof cases
    case 1
    with sendMessage_failure [OF assms(1), of net "[]" _ _ numstr] assms(2)
    show ?thesis by auto
  next
    case 2
    with assms show ?thesis by (simp add: sendMessage_accepted)
  next
    case 3
    with sendMessage_failure [OF assms(1), of net "[]" body _ numstr] assms(2)
    show ?thesis by auto
  next
    case 4
    with sendMessage_failure [OF assms(1), of net "[]" _ _ numstr] assms(2)
    show ?thesis by auto
  next
    case 5
    from assms 5 have "read_loop numstr (Suc (length (chatMessages s))) rd 0 (in_flight s, []) \<noteq> None"
      by (cases "read_loop numstr (Suc (length (chatMessages s))) rd 0 (in_flight s, [])")
        (simp_all add: sendMessage_accepted)
    then obtain cs where "delivers rd cs Done \<or> delivers rd cs ReadFailed"
      using read_loop_returns by blast
    then show ?thesis
    proof
      assume "delivers rd cs Done"
      from sendMessage_done [OF assms(1) this, of numstr] assms(2) 5 show ?thesis
        by (auto simp: finally_block_def)
    next
      assume d: "delivers rd cs ReadFailed"
      with sendMessage_failure [OF assms(1), of net cs _ rd numstr] assms(2) 5
      show ?thesis by auto
    qed
  qed
qed

subsection \<open>The assembler in closed form\<close>

lemma assemble_eq:
  "assemble numstr el s cs =
     Some (concat (response_texts numstr cs), running [] (response_texts numstr cs))"
proof -
  obtain c where
    "fold (process_chunk numstr el) cs (s, []) =
       (s\<lparr>chatMessages := (chatMessages s)
            [el := (chatMessages s ! el)\<lparr>children :=
               if response_texts numstr cs = []
               then children (chatMessages s ! el)
               else Paragraph ([] @ concat (response_texts numstr cs))\<rparr>],
          textContent_writes := textContent_writes s @ running [] (response_texts numstr cs),
          console := c\<rparr>,
        [] @ concat (response_texts numstr cs))"
    using fold_chunks_state [of numstr el cs s "[]"] by blast
  then show ?thesis
    by (simp add: assemble_def read_loop_delivers [OF delivers_stream_of])
qed

text \<open>The definitions that evaluate a concrete line.\<close>

lemmas eval_defs =
  js_def trim_def is_trim_space_def split_def lines_of_def response_texts_def
  response_text_def spec_response_texts_def spec_response_text_def
  JSON_parse_def skip_ws_def is_ws_def is_digit_def
  hex4_def hex_value_def escape_def starts_with_def
  parse_number_def parse_integer_def parse_fraction_def parse_exponent_def
  decimal_value_def digits_value_def number_nonzero_def
  join_def sequence_def

subsection \<open>Examples and chunkings\<close>

lemma accepted_asking: "accepted asking"
  by (simp add: accepted_def asking_def initial_state_def trim_def is_trim_space_def js_def)

lemma trim_hi: "trim (js ''hi'') = js ''hi''"
  by (simp add: trim_def is_trim_space_def js_def)

lemma length_running: "length (running a ds) = length ds"
  by (induction ds arbitrary: a) simp_all

lemma deltas_running: "deltas a (running a ds) = ds"
  by (induction ds arbitrary: a) simp_all

lemma map_filter_append:
  "List.map_filter f (xs @ ys) = List.map_filter f xs @ List.map_filter f ys"
  by (simp add: List.map_filter_def)

lemma response_texts_Cons:
  "response_texts numstr (c # cs) =
     List.map_filter (response_text numstr) (split LF c) @ response_texts numstr cs"
  by (simp add: response_texts_def lines_of_def map_filter_append)

lemma response_texts_Nil: "response_texts numstr [] = []"
  by (simp add: response_texts_def lines_of_def)

lemma map_filter_split_aligned:
  assumes "c = [] \<or> last c = LF"
  shows "List.map_filter (response_text numstr) (split LF (c @ rest)) =
    List.map_filter (response_text numstr) (split LF c) @
    List.map_filter (response_text numstr) (split LF rest)"
proof (cases "c = []")
  case True
  then show ?thesis
    by (simp add: split_Nil response_text_Nil)
next
  case False
  with assms have c: "c = butlast c @ [LF]"
    by (metis append_butlast_last_id)
  have "split LF (c @ rest) = split LF (butlast c) @ split LF rest"
    by (subst c) (simp add: split_append_sep)
  moreover have "split LF c = split LF (butlast c) @ [[]]"
    by (subst c) (simp add: split_snoc_sep)
  ultimately show ?thesis
    by (simp add: map_filter_append response_text_Nil)
qed

lemma response_texts_line_aligned:
  "line_aligned cs \<Longrightarrow>
   response_texts numstr cs = List.map_filter (response_text numstr) (split LF (concat cs))"
proof (induction cs)
  case Nil
  show ?case
    by (simp add: response_texts_Nil split_Nil response_text_Nil)
next
  case (Cons c cs)
  show ?case
  proof (cases "cs = []")
    case True
    then show ?thesis
      by (simp add: response_texts_Cons response_texts_Nil)
  next
    case False
    with Cons.prems have c: "c = [] \<or> last c = LF" and cs: "line_aligned cs"
      by (simp_all add: line_aligned_def)
    show ?thesis
      by (simp add: response_texts_Cons Cons.IH [OF cs] map_filter_split_aligned [OF c])
  qed
qed

subsection \<open>Streams of text fields\<close>

lemma response_text_text_line:
  assumes "text_line line"
  shows "response_text numstr line =
    (case spec_response_text line of
       Some t \<Rightarrow> if t = [] then None else Some t
     | None \<Rightarrow> None)"
  using assms
  by (auto simp: text_line_def response_text_def spec_response_text_def
      split: option.splits json.splits)

lemma map_filter_text_lines:
  "list_all text_line ls \<Longrightarrow>
   List.map_filter (response_text numstr) ls = nonempty (List.map_filter spec_response_text ls)"
  by (induction ls)
    (auto simp: nonempty_def response_text_text_line split: option.splits)

lemma response_texts_text_only:
  "text_only cs \<Longrightarrow> response_texts numstr cs = nonempty (spec_response_texts cs)"
  by (simp add: text_only_def response_texts_def spec_response_texts_def map_filter_text_lines)

lemma concat_nonempty: "concat (nonempty ts) = concat ts"
  by (induction ts) (simp_all add: nonempty_def)

section \<open>The properties\<close>

text \<open>
  C1, as the specification states it: the accumulated text is the concatenation of the
  \<^verbatim>\<open>response\<close> text fields of the lines that parse as JSON objects, with one
  display event per such line. It fails on the code in two ways. The line
  \<^verbatim>\<open>{"response":""}\<close> parses and has the text field, yet no event is emitted for
  it. The line \<^verbatim>\<open>{"response":true}\<close> has no text field, yet \<^verbatim>\<open>true\<close> is
  appended and displayed.
\<close>

theorem C1_counterexample:
  \<open>spec_response_texts [js ''{"response":""}''] = [[]] \<and>
   assemble no_numbers 2 (in_flight asking) [js ''{"response":""}''] = Some ([], []) \<and>
   assemble no_numbers 2 (in_flight asking) [js ''{"response":""}''] \<noteq>
     Some (concat (spec_response_texts [js ''{"response":""}'']),
           running [] (spec_response_texts [js ''{"response":""}''])) \<and>
   spec_response_texts [js ''{"response":true}''] = [] \<and>
   assemble no_numbers 2 (in_flight asking) [js ''{"response":true}'']
     = Some (js ''true'', [js ''true'']) \<and>
   assemble no_numbers 2 (in_flight asking) [js ''{"response":true}''] \<noteq>
     Some (concat (spec_response_texts [js ''{"response":true}'']),
           running [] (spec_response_texts [js ''{"response":true}'']))\<close>
  unfolding assemble_eq by (simp add: eval_defs List.map_filter_def)

text \<open>
  C1, amended. For every response stream that ends and in which every
  \<^verbatim>\<open>response\<close> field of a line that parses as a JSON object is text, the final
  accumulated text is the concatenation, in receive order, of the \<^verbatim>\<open>response\<close>
  texts of these lines, and the display is written once per line whose
  \<^verbatim>\<open>response\<close> text is not empty, in the same order, each time with the text
  accumulated up to that line, so that what the successive writes add are these texts in
  order. A line whose \<^verbatim>\<open>response\<close> text is empty, or that has no such field,
  emits no event.
\<close>

theorem C1_accumulated_text:
  assumes "delivers rd cs Done" and "text_only cs"
  shows
    "(\<exists>s'. read_loop numstr el rd 0 (s, []) = Some (Inr (s', concat (spec_response_texts cs))) \<and>
        textContent_writes s' = textContent_writes s @ running [] (nonempty (spec_response_texts cs)) \<and>
        deltas [] (drop (length (textContent_writes s)) (textContent_writes s'))
          = nonempty (spec_response_texts cs)) \<and>
     length (running [] (nonempty (spec_response_texts cs))) = length (nonempty (spec_response_texts cs)) \<and>
     assemble numstr el s cs =
       Some (concat (spec_response_texts cs), running [] (nonempty (spec_response_texts cs)))"
proof -
  have r: "response_texts numstr cs = nonempty (spec_response_texts cs)"
    by (rule response_texts_text_only [OF assms(2)])
  obtain c where
    "fold (process_chunk numstr el) cs (s, []) =
       (s\<lparr>chatMessages := (chatMessages s)
            [el := (chatMessages s ! el)\<lparr>children :=
               if response_texts numstr cs = []
               then children (chatMessages s ! el)
               else Paragraph ([] @ concat (response_texts numstr cs))\<rparr>],
          textContent_writes := textContent_writes s @ running [] (response_texts numstr cs),
          console := c\<rparr>,
        [] @ concat (response_texts numstr cs))"
    using fold_chunks_state [of numstr el cs s "[]"] by blast
  then have "\<exists>s'. read_loop numstr el rd 0 (s, []) = Some (Inr (s', concat (response_texts numstr cs))) \<and>
        textContent_writes s' = textContent_writes s @ running [] (response_texts numstr cs) \<and>
        deltas [] (drop (length (textContent_writes s)) (textContent_writes s'))
          = response_texts numstr cs"
    by (simp add: read_loop_delivers [OF assms(1)] deltas_running)
  then show ?thesis
    unfolding assemble_eq r concat_nonempty by (simp add: length_running)
qed

theorem C1_accumulated_text_witness:
  \<open>delivers (stream_of [js ''{"response":"Hi"}\<newline>{"response":" there"}\<newline>''] Done)
     [js ''{"response":"Hi"}\<newline>{"response":" there"}\<newline>''] Done \<and>
   text_only [js ''{"response":"Hi"}\<newline>{"response":" there"}\<newline>''] \<and>
   (\<exists>s'. read_loop no_numbers 2
        (stream_of [js ''{"response":"Hi"}\<newline>{"response":" there"}\<newline>''] Done) 0
        (in_flight asking, [])
      = Some (Inr (s', js ''Hi there'')) \<and>
      textContent_writes s' = [js ''Hi'', js ''Hi there''] \<and>
      deltas [] (textContent_writes s') = [js ''Hi'', js '' there'']) \<and>
   text_only [js ''{"response":"Hi"}\<newline>{"response":""}\<newline>{"other":1}''] \<and>
   spec_response_texts [js ''{"response":"Hi"}\<newline>{"response":""}\<newline>{"other":1}'']
     = [js ''Hi'', []] \<and>
   assemble no_numbers 2 (in_flight asking)
       [js ''{"response":"Hi"}\<newline>{"response":""}\<newline>{"other":1}'']
     = Some (js ''Hi'', [js ''Hi''])\<close>
proof -
  let ?cs = \<open>[js ''{"response":"Hi"}\<newline>{"response":" there"}\<newline>'']\<close>
  let ?ds = \<open>[js ''{"response":"Hi"}\<newline>{"response":""}\<newline>{"other":1}'']\<close>
  have d: "delivers (stream_of ?cs Done) ?cs Done"
    by (rule delivers_stream_of)
  have t: "text_only ?cs"
    by (simp add: text_only_def text_line_def eval_defs)
  have r: \<open>spec_response_texts ?cs = [js ''Hi'', js '' there'']\<close>
    by (simp add: eval_defs List.map_filter_def)
  have n: "nonempty [js ''Hi'', js '' there''] = [js ''Hi'', js '' there'']"
    by (simp add: nonempty_def js_def)
  have j: "js ''Hi'' @ js '' there'' = js ''Hi there''"
    by (simp add: js_def)
  have w: "textContent_writes (in_flight asking) = []"
    by (simp add: in_flight_def asking_def initial_state_def)
  have 1: "\<exists>s'. read_loop no_numbers 2 (stream_of ?cs Done) 0 (in_flight asking, [])
      = Some (Inr (s', js ''Hi there'')) \<and>
      textContent_writes s' = [js ''Hi'', js ''Hi there''] \<and>
      deltas [] (textContent_writes s') = [js ''Hi'', js '' there'']"
    using C1_accumulated_text [OF d t, of no_numbers 2 "in_flight asking"]
    unfolding r n by (simp add: j w)
  have d2: "delivers (stream_of ?ds Done) ?ds Done"
    by (rule delivers_stream_of)
  have t2: "text_only ?ds"
    by (simp add: text_only_def text_line_def eval_defs)
  have r2: \<open>spec_response_texts ?ds = [js ''Hi'', []]\<close>
    by (simp add: eval_defs List.map_filter_def)
  have n2: "nonempty [js ''Hi'', []] = [js ''Hi'']"
    by (simp add: nonempty_def js_def)
  have 2: "assemble no_numbers 2 (in_flight asking) ?ds = Some (js ''Hi'', [js ''Hi''])"
    using C1_accumulated_text [OF d2 t2, of no_numbers 2 "in_flight asking"]
    unfolding r2 n2 by simp
  from d t 1 t2 r2 2 show ?thesis by blast
qed

text \<open>
  C2, as the specification states it: the same text under any partition into chunks
  gives the same accumulator and the same displayed texts. It fails on the code: the
  record \<^verbatim>\<open>{"response":"Hello"}\<close> in one chunk gives \<^verbatim>\<open>Hello\<close>, and cut into
  two chunks after \<^verbatim>\<open>Hel\<close> it gives nothing, since each chunk is split into lines on
  its own and no partial line is kept for the next chunk.
\<close>

theorem C2_counterexample:
  \<open>concat [js ''{"response":"Hel'', js ''lo"}\<newline>''] = js ''{"response":"Hello"}\<newline>'' \<and>
   assemble no_numbers 2 (in_flight asking) [js ''{"response":"Hello"}\<newline>'']
     = Some (js ''Hello'', [js ''Hello'']) \<and>
   assemble no_numbers 2 (in_flight asking) [js ''{"response":"Hel'', js ''lo"}\<newline>'']
     = Some ([], [])\<close>
  unfolding assemble_eq by (simp add: eval_defs List.map_filter_def)

text \<open>
  C2, amended. Chunking-invariance holds for line-aligned chunkings: when every chunk
  but the last is empty or ends with a line feed, the final accumulator and the
  sequence of displayed texts are those of the whole text fed as one chunk, so two such
  chunkings of the same text give the same result; and two streams that deliver such
  chunkings of one text end with the same accumulated text, the same displayed texts and
  the same chat view.
\<close>

theorem C2_line_aligned_chunking_invariance:
  assumes "line_aligned cs" and "line_aligned cs'" and "concat cs = concat cs'"
  shows "assemble numstr el s cs = assemble numstr el s cs' \<and>
    assemble numstr el s cs = assemble numstr el s [concat cs] \<and>
    (delivers rd cs Done \<and> delivers rd' cs' Done \<longrightarrow>
       (\<exists>s1 s2 text.
          read_loop numstr el rd 0 (s, []) = Some (Inr (s1, text)) \<and>
          read_loop numstr el rd' 0 (s, []) = Some (Inr (s2, text)) \<and>
          textContent_writes s1 = textContent_writes s2 \<and>
          chatMessages s1 = chatMessages s2))"
proof -
  have eq: "response_texts numstr cs = response_texts numstr cs'"
    using assms by (simp add: response_texts_line_aligned)
  obtain c where 1:
    "fold (process_chunk numstr el) cs (s, []) =
       (s\<lparr>chatMessages := (chatMessages s)
            [el := (chatMessages s ! el)\<lparr>children :=
               if response_texts numstr cs = []
               then children (chatMessages s ! el)
               else Paragraph ([] @ concat (response_texts numstr cs))\<rparr>],
          textContent_writes := textContent_writes s @ running [] (response_texts numstr cs),
          console := c\<rparr>,
        [] @ concat (response_texts numstr cs))"
    using fold_chunks_state [of numstr el cs s "[]"] by blast
  obtain c' where 2:
    "fold (process_chunk numstr el) cs' (s, []) =
       (s\<lparr>chatMessages := (chatMessages s)
            [el := (chatMessages s ! el)\<lparr>children :=
               if response_texts numstr cs' = []
               then children (chatMessages s ! el)
               else Paragraph ([] @ concat (response_texts numstr cs'))\<rparr>],
          textContent_writes := textContent_writes s @ running [] (response_texts numstr cs'),
          console := c'\<rparr>,
        [] @ concat (response_texts numstr cs'))"
    using fold_chunks_state [of numstr el cs' s "[]"] by blast
  have "delivers rd cs Done \<and> delivers rd' cs' Done \<longrightarrow>
       (\<exists>s1 s2 text.
          read_loop numstr el rd 0 (s, []) = Some (Inr (s1, text)) \<and>
          read_loop numstr el rd' 0 (s, []) = Some (Inr (s2, text)) \<and>
          textContent_writes s1 = textContent_writes s2 \<and>
          chatMessages s1 = chatMessages s2)"
  proof
    assume "delivers rd cs Done \<and> delivers rd' cs' Done"
    then have "read_loop numstr el rd 0 (s, []) = Some (Inr (fold (process_chunk numstr el) cs (s, [])))"
      and "read_loop numstr el rd' 0 (s, []) = Some (Inr (fold (process_chunk numstr el) cs' (s, [])))"
      by (simp_all add: read_loop_delivers [of _ cs Done] read_loop_delivers [of _ cs' Done])
    then show "\<exists>s1 s2 text.
          read_loop numstr el rd 0 (s, []) = Some (Inr (s1, text)) \<and>
          read_loop numstr el rd' 0 (s, []) = Some (Inr (s2, text)) \<and>
          textContent_writes s1 = textContent_writes s2 \<and>
          chatMessages s1 = chatMessages s2"
      by (simp add: 1 2 eq)
  qed
  moreover have "assemble numstr el s cs = assemble numstr el s cs'"
    and "assemble numstr el s cs = assemble numstr el s [concat cs]"
    using assms
    by (simp_all add: assemble_eq response_texts_line_aligned response_texts_Cons
        response_texts_Nil)
  ultimately show ?thesis by blast
qed

theorem C2_line_aligned_chunking_invariance_witness:
  \<open>line_aligned [js ''{"response":"Hi"}\<newline>'', js ''{"response":" there"}\<newline>''] \<and>
   line_aligned [js ''{"response":"Hi"}\<newline>{"response":" there"}\<newline>''] \<and>
   concat [js ''{"response":"Hi"}\<newline>'', js ''{"response":" there"}\<newline>'']
     = concat [js ''{"response":"Hi"}\<newline>{"response":" there"}\<newline>''] \<and>
   assemble no_numbers 2 (in_flight asking)
       [js ''{"response":"Hi"}\<newline>'', js ''{"response":" there"}\<newline>'']
     = assemble no_numbers 2 (in_flight asking)
       [js ''{"response":"Hi"}\<newline>{"response":" there"}\<newline>''] \<and>
   assemble no_numbers 2 (in_flight asking)
       [js ''{"response":"Hi"}\<newline>'', js ''{"response":" there"}\<newline>'']
     = Some (js ''Hi there'', [js ''Hi'', js ''Hi there'']) \<and>
   (\<exists>s1 s2 text.
      read_loop no_numbers 2
        (stream_of [js ''{"response":"Hi"}\<newline>'', js ''{"response":" there"}\<newline>''] Done) 0
        (in_flight asking, []) = Some (Inr (s1, text)) \<and>
      read_loop no_numbers 2
        (stream_of [js ''{"response":"Hi"}\<newline>{"response":" there"}\<newline>''] Done) 0
        (in_flight asking, []) = Some (Inr (s2, text)) \<and>
      textContent_writes s1 = textContent_writes s2 \<and>
      chatMessages s1 = chatMessages s2)\<close>
proof -
  let ?cs = \<open>[js ''{"response":"Hi"}\<newline>'', js ''{"response":" there"}\<newline>'']\<close>
  let ?cs' = \<open>[js ''{"response":"Hi"}\<newline>{"response":" there"}\<newline>'']\<close>
  have 1: "line_aligned ?cs"
    by (simp add: line_aligned_def js_def)
  have 2: "line_aligned ?cs'"
    by (simp add: line_aligned_def)
  have 3: "concat ?cs = concat ?cs'"
    by (simp add: js_def)
  have 4: "assemble no_numbers 2 (in_flight asking) ?cs
      = Some (js ''Hi there'', [js ''Hi'', js ''Hi there''])"
    unfolding assemble_eq by (simp add: eval_defs List.map_filter_def)
  have 5: "delivers (stream_of ?cs Done) ?cs Done \<and> delivers (stream_of ?cs' Done) ?cs' Done"
    by (simp add: delivers_stream_of)
  from C2_line_aligned_chunking_invariance [OF 1 2 3, of no_numbers 2 "in_flight asking"
      "stream_of ?cs Done" "stream_of ?cs' Done"] 1 2 3 4 5
  show ?thesis by simp
qed

text \<open>
  C3. When one chunk is the text \<^verbatim>\<open>{"response":"Hel\<close> and the next chunk is
  \<^verbatim>\<open>lo"}\<close> followed by a line feed, the candidate lines are the two halves of the
  record and an empty line; neither half parses, nothing is appended and nothing is
  displayed: the accumulator stays empty. The same text in one chunk gives
  \<^verbatim>\<open>Hello\<close>, so the record is lost only because it was split.
\<close>

theorem C3_split_record_is_dropped:
  \<open>JSON_parse (js ''{"response":"Hel'') = None \<and>
   JSON_parse (js ''lo"}'') = None \<and>
   lines_of [js ''{"response":"Hel'', js ''lo"}\<newline>''] =
     [js ''{"response":"Hel'', js ''lo"}'', []] \<and>
   assemble numstr el s [js ''{"response":"Hel'', js ''lo"}\<newline>''] = Some ([], []) \<and>
   assemble numstr el s [js ''{"response":"Hello"}\<newline>''] = Some (js ''Hello'', [js ''Hello''])\<close>
  unfolding assemble_eq by (simp add: eval_defs List.map_filter_def)

text \<open>
  C4. A submission is a call of \<^verbatim>\<open>sendMessage\<close> with text or an image entered
  and no request in flight (an attempt made while one is in flight is the no-op of C8).
  A call that returns has then appended to the history exactly one user message,
  followed by at most one assistant message and nothing else; and when the response is a
  success whose stream ends, it has appended exactly the user message and then one
  assistant message, whose content is the assembled text.
\<close>

theorem C4_one_user_then_one_assistant:
  assumes "accepted s"
  shows
    "(sendMessage numstr net s = Some s' \<longrightarrow>
        chatHistory s' = chatHistory s @
          [\<lparr>role = js ''user'', content = trim (userInput_value s)\<rparr>] \<or>
        (\<exists>text. chatHistory s' = chatHistory s @
          [\<lparr>role = js ''user'', content = trim (userInput_value s)\<rparr>,
           \<lparr>role = js ''assistant'', content = text\<rparr>])) \<and>
     (delivers rd cs Done \<longrightarrow>
        (\<exists>s'. sendMessage numstr (Response True (Some rd)) s = Some s' \<and>
           chatHistory s' = chatHistory s @
             [\<lparr>role = js ''user'', content = trim (userInput_value s)\<rparr>,
              \<lparr>role = js ''assistant'', content = concat (response_texts numstr cs)\<rparr>]))"
proof (intro conjI impI)
  assume "sendMessage numstr net s = Some s'"
  from sendMessage_returns [OF assms this]
  show "chatHistory s' = chatHistory s @
          [\<lparr>role = js ''user'', content = trim (userInput_value s)\<rparr>] \<or>
        (\<exists>text. chatHistory s' = chatHistory s @
          [\<lparr>role = js ''user'', content = trim (userInput_value s)\<rparr>,
           \<lparr>role = js ''assistant'', content = text\<rparr>])"
    by (auto simp: user_message_def)
next
  assume "delivers rd cs Done"
  from sendMessage_done [OF assms this, of numstr]
  show "\<exists>s'. sendMessage numstr (Response True (Some rd)) s = Some s' \<and>
           chatHistory s' = chatHistory s @
             [\<lparr>role = js ''user'', content = trim (userInput_value s)\<rparr>,
              \<lparr>role = js ''assistant'', content = concat (response_texts numstr cs)\<rparr>]"
    by (auto simp: finally_block_def user_message_def)
qed

theorem C4_one_user_then_one_assistant_witness:
  \<open>accepted asking \<and>
   delivers (stream_of [js ''{"response":"Hi"}\<newline>{"response":" there"}\<newline>''] Done)
     [js ''{"response":"Hi"}\<newline>{"response":" there"}\<newline>''] Done \<and>
   (\<exists>s'. sendMessage no_numbers
        (Response True (Some (stream_of [js ''{"response":"Hi"}\<newline>{"response":" there"}\<newline>''] Done)))
        asking = Some s' \<and>
      chatHistory s' = chatHistory initial_state @
        [\<lparr>role = js ''user'', content = js ''hi''\<rparr>,
         \<lparr>role = js ''assistant'', content = js ''Hi there''\<rparr>]) \<and>
   (\<exists>s'. sendMessage no_numbers (Response False None) asking = Some s' \<and>
      (chatHistory s' = chatHistory initial_state @ [\<lparr>role = js ''user'', content = js ''hi''\<rparr>] \<or>
       (\<exists>text. chatHistory s' = chatHistory initial_state @
          [\<lparr>role = js ''user'', content = js ''hi''\<rparr>,
           \<lparr>role = js ''assistant'', content = text\<rparr>])))\<close>
proof -
  let ?cs = \<open>[js ''{"response":"Hi"}\<newline>{"response":" there"}\<newline>'']\<close>
  have d: "delivers (stream_of ?cs Done) ?cs Done"
    by (rule delivers_stream_of)
  have v: "userInput_value asking = js ''hi''"
    and h: "chatHistory asking = chatHistory initial_state"
    by (simp_all add: asking_def)
  have r: \<open>concat (response_texts no_numbers ?cs) = js ''Hi there''\<close>
    by (simp add: eval_defs List.map_filter_def)
  obtain s' where s': "sendMessage no_numbers (Response False None) asking = Some s'"
    by (simp add: sendMessage_accepted [OF accepted_asking])
  have 1: "\<exists>s'. sendMessage no_numbers (Response True (Some (stream_of ?cs Done))) asking = Some s' \<and>
      chatHistory s' = chatHistory initial_state @
        [\<lparr>role = js ''user'', content = js ''hi''\<rparr>,
         \<lparr>role = js ''assistant'', content = js ''Hi there''\<rparr>]"
    using
      C4_one_user_then_one_assistant [OF accepted_asking,
        of no_numbers "Response True (Some (stream_of ?cs Done))" asking "stream_of ?cs Done" ?cs]
      d
    unfolding v h r trim_hi
    by blast
  have 2: "chatHistory s' = chatHistory initial_state @ [\<lparr>role = js ''user'', content = js ''hi''\<rparr>] \<or>
       (\<exists>text. chatHistory s' = chatHistory initial_state @
          [\<lparr>role = js ''user'', content = js ''hi''\<rparr>,
           \<lparr>role = js ''assistant'', content = text\<rparr>])"
    using
      C4_one_user_then_one_assistant [OF accepted_asking,
        of no_numbers "Response False None" s' "stream_of ?cs Done" ?cs]
      s'
    unfolding v h trim_hi
    by blast
  from accepted_asking d 1 2 s' show ?thesis by blast
qed

text \<open>
  C5. When an accepted submission fails in transport (the request is rejected, or the
  status is not a success; likewise when the response has no body), the call returns
  with \<open>isProcessing\<close> cleared; the chat view has gained the user turn, the empty
  placeholder and exactly one fallback element with the literal error text; and the
  history has gained the user message and nothing else, its earlier turns unchanged.
  When a read of the body is rejected after some chunks, the same holds, the placeholder
  showing the text accumulated so far: that partial text is not put into the history.
\<close>

theorem C5_failure_surfaces_one_fallback:
  assumes "accepted s"
  shows
    "(net = FetchRejected \<or> net = Response False body \<or> net = Response True None \<longrightarrow>
       (\<exists>s'. sendMessage numstr net s = Some s' \<and>
          \<not> isProcessing s' \<and>
          chatHistory s' = chatHistory s @
            [\<lparr>role = js ''user'', content = trim (userInput_value s)\<rparr>] \<and>
          chatMessages s' = chatMessages s @
            [user_element s,
             \<lparr>className = js ''message assistant-message'', children = Paragraph []\<rparr>,
             \<lparr>className = js ''message assistant-message'',
              children = Html (js ''<p>Sorry, there was an error processing your request.</p>'')\<rparr>])) \<and>
     (net = Response True (Some rd) \<and> delivers rd cs ReadFailed \<longrightarrow>
       (\<exists>s'. sendMessage numstr net s = Some s' \<and>
          \<not> isProcessing s' \<and>
          chatHistory s' = chatHistory s @
            [\<lparr>role = js ''user'', content = trim (userInput_value s)\<rparr>] \<and>
          chatMessages s' = chatMessages s @
            [user_element s,
             \<lparr>className = js ''message assistant-message'',
              children = Paragraph (concat (response_texts numstr cs))\<rparr>,
             \<lparr>className = js ''message assistant-message'',
              children = Html (js ''<p>Sorry, there was an error processing your request.</p>'')\<rparr>]))"
proof (intro conjI impI)
  have empty: "response_texts numstr [] = []"
    by (simp add: response_texts_def lines_of_def)
  assume "net = FetchRejected \<or> net = Response False body \<or> net = Response True None"
  then show "\<exists>s'. sendMessage numstr net s = Some s' \<and>
          \<not> isProcessing s' \<and>
          chatHistory s' = chatHistory s @
            [\<lparr>role = js ''user'', content = trim (userInput_value s)\<rparr>] \<and>
          chatMessages s' = chatMessages s @
            [user_element s,
             \<lparr>className = js ''message assistant-message'', children = Paragraph []\<rparr>,
             \<lparr>className = js ''message assistant-message'',
              children = Html (js ''<p>Sorry, there was an error processing your request.</p>'')\<rparr>]"
    using sendMessage_failure [OF assms, of net "[]" body rd numstr]
    by (auto simp: empty user_message_def placeholder_def fallback_element_def)
next
  assume "net = Response True (Some rd) \<and> delivers rd cs ReadFailed"
  then show "\<exists>s'. sendMessage numstr net s = Some s' \<and>
          \<not> isProcessing s' \<and>
          chatHistory s' = chatHistory s @
            [\<lparr>role = js ''user'', content = trim (userInput_value s)\<rparr>] \<and>
          chatMessages s' = chatMessages s @
            [user_element s,
             \<lparr>className = js ''message assistant-message'',
              children = Paragraph (concat (response_texts numstr cs))\<rparr>,
             \<lparr>className = js ''message assistant-message'',
              children = Html (js ''<p>Sorry, there was an error processing your request.</p>'')\<rparr>]"
    using sendMessage_failure [OF assms, of net cs body rd numstr]
    by (auto simp: user_message_def placeholder_def fallback_element_def)
qed

theorem C5_failure_surfaces_one_fallback_witness:
  \<open>accepted asking \<and>
   (\<exists>s'. sendMessage no_numbers (Response False None) asking = Some s' \<and>
      \<not> isProcessing s' \<and>
      chatHistory s' = chatHistory initial_state @ [\<lparr>role = js ''user'', content = js ''hi''\<rparr>] \<and>
      chatMessages s' = chatMessages initial_state @
        [\<lparr>className = js ''message user-message'', children = Html (js ''<p>hi</p>'')\<rparr>,
         \<lparr>className = js ''message assistant-message'', children = Paragraph []\<rparr>,
         \<lparr>className = js ''message assistant-message'',
          children = Html (js ''<p>Sorry, there was an error processing your request.</p>'')\<rparr>]) \<and>
   delivers (stream_of [js ''{"response":"Hi"}\<newline>''] ReadFailed)
     [js ''{"response":"Hi"}\<newline>''] ReadFailed \<and>
   (\<exists>s'. sendMessage no_numbers
        (Response True (Some (stream_of [js ''{"response":"Hi"}\<newline>''] ReadFailed))) asking = Some s' \<and>
      \<not> isProcessing s' \<and>
      chatHistory s' = chatHistory initial_state @ [\<lparr>role = js ''user'', content = js ''hi''\<rparr>] \<and>
      chatMessages s' = chatMessages initial_state @
        [\<lparr>className = js ''message user-message'', children = Html (js ''<p>hi</p>'')\<rparr>,
         \<lparr>className = js ''message assistant-message'', children = Paragraph (js ''Hi'')\<rparr>,
         \<lparr>className = js ''message assistant-message'',
          children = Html (js ''<p>Sorry, there was an error processing your request.</p>'')\<rparr>])\<close>
proof -
  let ?cs = \<open>[js ''{"response":"Hi"}\<newline>'']\<close>
  have d: "delivers (stream_of ?cs ReadFailed) ?cs ReadFailed"
    by (rule delivers_stream_of)
  have u: "user_element asking =
      \<lparr>className = js ''message user-message'', children = Html (js ''<p>hi</p>'')\<rparr>"
    by (simp add: user_element_def shown_user_text_def asking_def initial_state_def trim_hi)
      (simp add: js_def)
  have v: "userInput_value asking = js ''hi''"
    and h: "chatHistory asking = chatHistory initial_state"
    and m: "chatMessages asking = chatMessages initial_state"
    by (simp_all add: asking_def)
  have r: \<open>concat (response_texts no_numbers ?cs) = js ''Hi''\<close>
    by (simp add: eval_defs List.map_filter_def)
  show ?thesis
    using
      C5_failure_surfaces_one_fallback [OF accepted_asking, of "Response False None" None
        no_numbers "stream_of ?cs ReadFailed" ?cs]
      C5_failure_surfaces_one_fallback [OF accepted_asking,
        of "Response True (Some (stream_of ?cs ReadFailed))" None
        no_numbers "stream_of ?cs ReadFailed" ?cs]
      accepted_asking d
    unfolding u v h m r trim_hi
    by simp
qed

text \<open>
  C6. \<open>isProcessing\<close> is false in the initial state; every call of
  \<^verbatim>\<open>sendMessage\<close> that starts with the flag false and returns leaves it false,
  whatever the network did; and for every outcome that settles (a rejected request, a
  failure status, a missing body, a stream that ends or whose read is rejected) the call
  of an accepted submission does return, with the flag false. In between the flag is
  set: the statements before the \<^verbatim>\<open>try\<close> set it, the call of an accepted
  submission is these statements, the \<^verbatim>\<open>try\<close> block, the \<^verbatim>\<open>catch\<close>
  block if that throws, and the \<^verbatim>\<open>finally\<close> block; the \<^verbatim>\<open>try\<close> block,
  the read loop in it and the \<^verbatim>\<open>catch\<close> block leave the flag as it is, and the
  \<^verbatim>\<open>finally\<close> block clears it. So the flag is set in \<open>in_flight s\<close>, the state
  in which the call waits for the response and from which every outcome is computed.
\<close>

theorem C6_in_flight_flag_cleared:
  "\<not> isProcessing initial_state \<and>
   (\<not> isProcessing s \<and> sendMessage numstr net s = Some s' \<longrightarrow> \<not> isProcessing s') \<and>
   (accepted s \<and>
      (net = FetchRejected \<or> net = Response False body \<or> net = Response True None \<or>
       net = Response True (Some rd) \<and> (delivers rd cs Done \<or> delivers rd cs ReadFailed))
    \<longrightarrow> (\<exists>s'. sendMessage numstr net s = Some s' \<and> \<not> isProcessing s')) \<and>
   isProcessing (before_try message imageFile s) \<and>
   (accepted s \<longrightarrow>
      sendMessage numstr net s =
        (case try_block numstr net (imageFile_of s)
                (before_try (trim (userInput_value s)) (imageFile_of s) s) of
           None \<Rightarrow> None
         | Some (Inr s6) \<Rightarrow> Some (finally_block s6)
         | Some (Inl (e, s6)) \<Rightarrow> Some (finally_block (catch_block e s6)))) \<and>
   (try_block numstr net imageFile s = Some (Inl (e, s3)) \<longrightarrow> isProcessing s3 = isProcessing s) \<and>
   (try_block numstr net imageFile s = Some (Inr s3) \<longrightarrow> isProcessing s3 = isProcessing s) \<and>
   isProcessing (catch_block e s) = isProcessing s \<and>
   \<not> isProcessing (finally_block s) \<and>
   (accepted s \<longrightarrow>
      isProcessing (in_flight s) \<and>
      sendMessage numstr FetchPending s = None \<and>
      sendMessage numstr FetchRejected s =
        Some (finally_block (catch_block NetworkError (in_flight s))) \<and>
      sendMessage numstr (Response False body) s =
        Some (finally_block (catch_block (Error (js ''Failed to get response'')) (in_flight s))) \<and>
      sendMessage numstr (Response True None) s =
        Some (finally_block (catch_block TypeError (in_flight s))) \<and>
      sendMessage numstr (Response True (Some rd)) s =
        (case read_loop numstr (Suc (length (chatMessages s))) rd 0 (in_flight s, []) of
           None \<Rightarrow> None
         | Some (Inl (e, s3)) \<Rightarrow> Some (finally_block (catch_block e s3))
         | Some (Inr (s3, text)) \<Rightarrow>
             Some (finally_block (s3\<lparr>chatHistory := chatHistory s3 @
               [\<lparr>role = js ''assistant'', content = text\<rparr>]\<rparr>)))) \<and>
   (read_loop numstr el rd 0 (s, t) = Some (Inl (e, s3)) \<longrightarrow> isProcessing s3 = isProcessing s) \<and>
   (read_loop numstr el rd 0 (s, t) = Some (Inr (s3, responseText)) \<longrightarrow>
      isProcessing s3 = isProcessing s)"
proof -
  have 1: "\<not> isProcessing initial_state"
    by (simp add: initial_state_def)
  have guard: "\<not> ((trim (userInput_value s) = [] \<and> imageFile_of s = None) \<or> isProcessing s)"
    if "accepted s"
    using that by (auto simp: accepted_def imageFile_of_def split: list.splits)
  have 2: "\<not> isProcessing s \<and> sendMessage numstr net s = Some s' \<longrightarrow> \<not> isProcessing s'"
  proof (intro impI)
    assume a: "\<not> isProcessing s \<and> sendMessage numstr net s = Some s'"
    show "\<not> isProcessing s'"
    proof (cases "accepted s")
      case True
      with a show ?thesis using sendMessage_returns by blast
    next
      case False
      with a have "sendMessage numstr net s = Some s"
        by (auto simp: sendMessage_def accepted_def imageFile_of_def split: list.splits)
      with a show ?thesis by auto
    qed
  qed
  have 3: "accepted s \<and>
      (net = FetchRejected \<or> net = Response False body \<or> net = Response True None \<or>
       net = Response True (Some rd) \<and> (delivers rd cs Done \<or> delivers rd cs ReadFailed))
    \<longrightarrow> (\<exists>s'. sendMessage numstr net s = Some s' \<and> \<not> isProcessing s')"
  proof (intro impI)
    assume a: "accepted s \<and>
        (net = FetchRejected \<or> net = Response False body \<or> net = Response True None \<or>
         net = Response True (Some rd) \<and> (delivers rd cs Done \<or> delivers rd cs ReadFailed))"
    then have acc: "accepted s" by simp
    from a consider
      "net = FetchRejected \<or> net = Response False body \<or> net = Response True None" |
      "net = Response True (Some rd)" "delivers rd cs ReadFailed" |
      "net = Response True (Some rd)" "delivers rd cs Done"
      by blast
    then show "\<exists>s'. sendMessage numstr net s = Some s' \<and> \<not> isProcessing s'"
    proof cases
      case 1
      then show ?thesis
        using sendMessage_failure [OF acc, of net "[]" body rd numstr] by auto
    next
      case 2
      then show ?thesis
        using sendMessage_failure [OF acc, of net cs body rd numstr] by auto
    next
      case 3
      then show ?thesis
        using sendMessage_done [OF acc 3(2), of numstr] by (auto simp: finally_block_def)
    qed
  qed
  have 4: "isProcessing (before_try message imageFile s)"
    by (simp add: before_try_def Let_def addMessageToChat_def)
  have 5: "accepted s \<longrightarrow>
      sendMessage numstr net s =
        (case try_block numstr net (imageFile_of s)
                (before_try (trim (userInput_value s)) (imageFile_of s) s) of
           None \<Rightarrow> None
         | Some (Inr s6) \<Rightarrow> Some (finally_block s6)
         | Some (Inl (e, s6)) \<Rightarrow> Some (finally_block (catch_block e s6)))"
    using guard by (auto simp: sendMessage_def Let_def)
  have 6: "try_block numstr net imageFile s = Some (Inl (e, s3)) \<longrightarrow> isProcessing s3 = isProcessing s"
    using try_block_isProcessing [of numstr net imageFile s "Inl (e, s3)"] by simp
  have 7: "try_block numstr net imageFile s = Some (Inr s3) \<longrightarrow> isProcessing s3 = isProcessing s"
    using try_block_isProcessing [of numstr net imageFile s "Inr s3"] by simp
  have 8: "isProcessing (catch_block e s) = isProcessing s"
    by (simp add: catch_block_def addMessageToChat_def)
  have 9: "\<not> isProcessing (finally_block s)"
    by (simp add: finally_block_def)
  have 10: "accepted s \<longrightarrow>
      isProcessing (in_flight s) \<and>
      sendMessage numstr FetchPending s = None \<and>
      sendMessage numstr FetchRejected s =
        Some (finally_block (catch_block NetworkError (in_flight s))) \<and>
      sendMessage numstr (Response False body) s =
        Some (finally_block (catch_block (Error (js ''Failed to get response'')) (in_flight s))) \<and>
      sendMessage numstr (Response True None) s =
        Some (finally_block (catch_block TypeError (in_flight s))) \<and>
      sendMessage numstr (Response True (Some rd)) s =
        (case read_loop numstr (Suc (length (chatMessages s))) rd 0 (in_flight s, []) of
           None \<Rightarrow> None
         | Some (Inl (e, s3)) \<Rightarrow> Some (finally_block (catch_block e s3))
         | Some (Inr (s3, text)) \<Rightarrow>
             Some (finally_block (s3\<lparr>chatHistory := chatHistory s3 @
               [\<lparr>role = js ''assistant'', content = text\<rparr>]\<rparr>)))"
    by (simp add: sendMessage_accepted) (simp add: in_flight_def)
  have 11: "read_loop numstr el rd 0 (s, t) = Some (Inl (e, s3)) \<longrightarrow> isProcessing s3 = isProcessing s"
    using read_loop_isProcessing [of numstr el rd s t "Inl (e, s3)"] by simp
  have 12: "read_loop numstr el rd 0 (s, t) = Some (Inr (s3, responseText)) \<longrightarrow>
      isProcessing s3 = isProcessing s"
    using read_loop_isProcessing [of numstr el rd s t "Inr (s3, responseText)"] by simp
  from 1 2 3 4 5 6 7 8 9 10 11 12 show ?thesis
    by (intro conjI)
qed

theorem C6_in_flight_flag_cleared_witness:
  \<open>\<not> isProcessing initial_state \<and>
   accepted asking \<and>
   \<not> isProcessing asking \<and>
   isProcessing (before_try (js ''hi'') None asking) \<and>
   isProcessing (in_flight asking) \<and>
   (\<exists>e s3. try_block no_numbers (Response False None) None (before_try (js ''hi'') None asking)
        = Some (Inl (e, s3)) \<and>
      isProcessing s3 \<and>
      isProcessing (catch_block e s3) \<and>
      sendMessage no_numbers (Response False None) asking
        = Some (finally_block (catch_block e s3))) \<and>
   (\<exists>s'. sendMessage no_numbers (Response False None) asking = Some s' \<and> \<not> isProcessing s') \<and>
   delivers (stream_of [js ''{"response":"Hi"}\<newline>''] Done) [js ''{"response":"Hi"}\<newline>''] Done \<and>
   (\<exists>s3. try_block no_numbers
        (Response True (Some (stream_of [js ''{"response":"Hi"}\<newline>''] Done))) None
        (before_try (js ''hi'') None asking) = Some (Inr s3) \<and>
      isProcessing s3 \<and>
      sendMessage no_numbers (Response True (Some (stream_of [js ''{"response":"Hi"}\<newline>''] Done))) asking
        = Some (finally_block s3)) \<and>
   (\<exists>s3 text. read_loop no_numbers 2 (stream_of [js ''{"response":"Hi"}\<newline>''] Done) 0
        (in_flight asking, []) = Some (Inr (s3, text)) \<and>
      isProcessing s3 \<and>
      sendMessage no_numbers (Response True (Some (stream_of [js ''{"response":"Hi"}\<newline>''] Done))) asking
        = Some (finally_block (s3\<lparr>chatHistory := chatHistory s3 @
             [\<lparr>role = js ''assistant'', content = text\<rparr>]\<rparr>))) \<and>
   (\<exists>s'. sendMessage no_numbers
      (Response True (Some (stream_of [js ''{"response":"Hi"}\<newline>''] Done))) asking = Some s' \<and>
      \<not> isProcessing s') \<and>
   read_loop no_numbers 2 (stream_of [] ReadFailed) 0 (in_flight asking, [])
     = Some (Inl (NetworkError, in_flight asking)) \<and>
   sendMessage no_numbers (Response True (Some (stream_of [] ReadFailed))) asking
     = Some (finally_block (catch_block NetworkError (in_flight asking))) \<and>
   sendMessage no_numbers FetchPending asking = None\<close>
proof -
  let ?cs = \<open>[js ''{"response":"Hi"}\<newline>'']\<close>
  let ?b = "before_try (js ''hi'') None asking"
  have d: "delivers (stream_of ?cs Done) ?cs Done"
    by (rule delivers_stream_of)
  have i: "\<not> isProcessing asking"
    by (simp add: asking_def initial_state_def)
  have l: "Suc (length (chatMessages asking)) = 2"
    by (simp add: asking_def initial_state_def)
  have m: "trim (userInput_value asking) = js ''hi''" and f: "imageFile_of asking = None"
    by (simp_all add: asking_def initial_state_def imageFile_of_def trim_hi)
  obtain e1 s1 where t1:
    "try_block no_numbers (Response False None) None ?b = Some (Inl (e1, s1))"
    by (simp add: try_block_def Let_def)
  obtain s3 res where r:
    "read_loop no_numbers 2 (stream_of ?cs Done) 0 (in_flight asking, []) = Some (Inr (s3, res))"
    by (cases "fold (process_chunk no_numbers 2) ?cs (in_flight asking, [])")
      (simp add: read_loop_delivers [OF d])
  have rf: "read_loop no_numbers 2 (stream_of [] ReadFailed) 0 (in_flight asking, [])
      = Some (Inl (NetworkError, in_flight asking))"
    by (simp add: read_loop_delivers [OF delivers_stream_of])
  obtain s' where s': "sendMessage no_numbers (Response False None) asking = Some s'"
    by (simp add: sendMessage_accepted [OF accepted_asking])
  have 1: "\<exists>s'. sendMessage no_numbers (Response True (Some (stream_of ?cs Done))) asking = Some s' \<and>
      \<not> isProcessing s'"
    using C6_in_flight_flag_cleared [where s = asking and numstr = no_numbers
        and net = "Response True (Some (stream_of ?cs Done))" and rd = "stream_of ?cs Done" and cs = ?cs]
      accepted_asking d by blast
  have 2: "\<not> isProcessing s'"
    using C6_in_flight_flag_cleared [where s = asking and numstr = no_numbers and net = "Response False None" and s' = s']
      i s' by blast
  have 3: "\<not> isProcessing initial_state"
    and 4: "isProcessing ?b"
    and 5: "isProcessing (in_flight asking)"
    and 6: "sendMessage no_numbers FetchPending asking = None"
    using C6_in_flight_flag_cleared [where s = asking and numstr = no_numbers and message = "js ''hi''" and imageFile = None]
      accepted_asking
    by blast+
  have 7: "isProcessing s1"
    using C6_in_flight_flag_cleared [where s = ?b and numstr = no_numbers and net = "Response False None"
        and imageFile = None and e = e1 and ?s3.0 = s1]
      t1 4 by blast
  have 8: "isProcessing (catch_block e1 s1)"
    using C6_in_flight_flag_cleared [where s = s1 and e = e1] 7 by blast
  have 9: "sendMessage no_numbers (Response False None) asking = Some (finally_block (catch_block e1 s1))"
  proof -
    have "sendMessage no_numbers (Response False None) asking =
        (case try_block no_numbers (Response False None) (imageFile_of asking)
                (before_try (trim (userInput_value asking)) (imageFile_of asking) asking) of
           None \<Rightarrow> None
         | Some (Inr s6) \<Rightarrow> Some (finally_block s6)
         | Some (Inl (e, s6)) \<Rightarrow> Some (finally_block (catch_block e s6)))"
      using C6_in_flight_flag_cleared [where s = asking and numstr = no_numbers and net = "Response False None"]
        accepted_asking
      by blast
    then show ?thesis
      by (simp add: m f t1)
  qed
  obtain s6 where t2: "try_block no_numbers (Response True (Some (stream_of ?cs Done))) None ?b
      = Some (Inr s6)"
    by (cases "fold (process_chunk no_numbers (length (chatMessages ?b))) ?cs
          (?b\<lparr>chatMessages := chatMessages ?b @
              [\<lparr>className = js ''message assistant-message'', children = Paragraph []\<rparr>],
            requests := requests ?b @ [JsonRequest (chatHistory ?b)]\<rparr>, [])")
      (simp add: try_block_def Let_def read_loop_delivers [OF d])
  have 10: "isProcessing s6"
    using C6_in_flight_flag_cleared [where s = ?b and numstr = no_numbers
        and net = "Response True (Some (stream_of ?cs Done))" and imageFile = None and ?s3.0 = s6]
      t2 4
    by blast
  have 11: "sendMessage no_numbers (Response True (Some (stream_of ?cs Done))) asking
      = Some (finally_block s6)"
  proof -
    have "sendMessage no_numbers (Response True (Some (stream_of ?cs Done))) asking =
        (case try_block no_numbers (Response True (Some (stream_of ?cs Done))) (imageFile_of asking)
                (before_try (trim (userInput_value asking)) (imageFile_of asking) asking) of
           None \<Rightarrow> None
         | Some (Inr s6) \<Rightarrow> Some (finally_block s6)
         | Some (Inl (e, s6)) \<Rightarrow> Some (finally_block (catch_block e s6)))"
      using C6_in_flight_flag_cleared [where s = asking and numstr = no_numbers
          and net = "Response True (Some (stream_of ?cs Done))"]
        accepted_asking
      by blast
    then show ?thesis
      by (simp add: m f t2)
  qed
  have 12: "isProcessing s3"
    using C6_in_flight_flag_cleared [where s = "in_flight asking" and numstr = no_numbers and rd = "stream_of ?cs Done"
        and el = 2 and t = "[]" and ?s3.0 = s3 and responseText = res] r 5
    by blast
  have 13: "sendMessage no_numbers (Response True (Some (stream_of ?cs Done))) asking
      = Some (finally_block (s3\<lparr>chatHistory := chatHistory s3 @
           [\<lparr>role = js ''assistant'', content = res\<rparr>]\<rparr>))"
  proof -
    have "sendMessage no_numbers (Response True (Some (stream_of ?cs Done))) asking =
        (case read_loop no_numbers (Suc (length (chatMessages asking))) (stream_of ?cs Done) 0
                (in_flight asking, []) of
           None \<Rightarrow> None
         | Some (Inl (e, s3)) \<Rightarrow> Some (finally_block (catch_block e s3))
         | Some (Inr (s3, text)) \<Rightarrow>
             Some (finally_block (s3\<lparr>chatHistory := chatHistory s3 @
               [\<lparr>role = js ''assistant'', content = text\<rparr>]\<rparr>)))"
      using C6_in_flight_flag_cleared [where s = asking and numstr = no_numbers and rd = "stream_of ?cs Done"]
        accepted_asking
      by blast
    then show ?thesis
      by (simp add: l r)
  qed
  have 14: "sendMessage no_numbers (Response True (Some (stream_of [] ReadFailed))) asking
      = Some (finally_block (catch_block NetworkError (in_flight asking)))"
  proof -
    have "sendMessage no_numbers (Response True (Some (stream_of [] ReadFailed))) asking =
        (case read_loop no_numbers (Suc (length (chatMessages asking))) (stream_of [] ReadFailed) 0
                (in_flight asking, []) of
           None \<Rightarrow> None
         | Some (Inl (e, s3)) \<Rightarrow> Some (finally_block (catch_block e s3))
         | Some (Inr (s3, text)) \<Rightarrow>
             Some (finally_block (s3\<lparr>chatHistory := chatHistory s3 @
               [\<lparr>role = js ''assistant'', content = text\<rparr>]\<rparr>)))"
      using C6_in_flight_flag_cleared [where s = asking and numstr = no_numbers and rd = "stream_of [] ReadFailed"]
        accepted_asking
      by blast
    then show ?thesis
      by (simp add: l rf)
  qed
  from 1 2 3 4 5 6 7 8 9 10 11 12 13 14 i s' t1 t2 r rf accepted_asking d show ?thesis
    by blast
qed

text \<open>
  C7. A line that is not valid JSON makes \<^verbatim>\<open>JSON.parse\<close> throw inside the
  \<^verbatim>\<open>try\<close> of that line; the \<^verbatim>\<open>catch\<close> logs a warning and nothing else
  changes: the accumulated text and the display stay as they were, and the line
  contributes no text. Processing goes on with the next line: a chunk that holds the
  line is processed as the lines before it, the warning, and then the lines after it. A
  stream that ends and holds the line is read to its end without an exception; its
  accumulated text and displayed texts are those of the other lines, the same as for a
  stream without the line. The exchange of such a stream succeeds: the assistant message
  with the assembled text is recorded and no fallback element is shown.
\<close>

theorem C7_malformed_line_is_skipped:
  assumes "JSON_parse line = None"
  shows "try_line numstr el line (s, t) = Inl SyntaxError \<and>
    process_line numstr el line (s, t) = (s\<lparr>console := console s @ [Warn SyntaxError line]\<rparr>, t) \<and>
    fold (process_line numstr el) (line # rest) (s, t) =
      fold (process_line numstr el) rest (s\<lparr>console := console s @ [Warn SyntaxError line]\<rparr>, t) \<and>
    response_text numstr line = None \<and>
    (delivers rd cs Done \<longrightarrow> (\<exists>r. read_loop numstr el rd 0 (s, t) = Some (Inr r))) \<and>
    (split LF chunk = pre @ line # post \<longrightarrow>
       process_chunk numstr el chunk (s, t) =
         fold (process_line numstr el) post
           (case fold (process_line numstr el) pre (s, t) of
              (s1, t1) \<Rightarrow> (s1\<lparr>console := console s1 @ [Warn SyntaxError line]\<rparr>, t1))) \<and>
    (delivers rd cs Done \<and> lines_of cs = before @ line # after \<longrightarrow>
       (\<exists>s'. read_loop numstr el rd 0 (s, t) =
            Some (Inr (s', t @ concat (List.map_filter (response_text numstr) (before @ after)))) \<and>
          textContent_writes s' = textContent_writes s @
            running t (List.map_filter (response_text numstr) (before @ after)))) \<and>
    (delivers rd cs Done \<and> lines_of cs = before @ line # after \<and>
     delivers rd' cs' Done \<and> lines_of cs' = before @ after \<longrightarrow>
       (\<exists>s1 s2 text.
          read_loop numstr el rd 0 (s, t) = Some (Inr (s1, text)) \<and>
          read_loop numstr el rd' 0 (s, t) = Some (Inr (s2, text)) \<and>
          textContent_writes s1 = textContent_writes s2 \<and>
          chatMessages s1 = chatMessages s2)) \<and>
    (accepted s \<and> delivers rd cs Done \<and> lines_of cs = before @ line # after \<longrightarrow>
       (\<exists>s'. sendMessage numstr (Response True (Some rd)) s = Some s' \<and>
          chatHistory s' = chatHistory s @
            [user_message s,
             \<lparr>role = js ''assistant'',
              content = concat (List.map_filter (response_text numstr) (before @ after))\<rparr>] \<and>
          chatMessages s' = chatMessages s @
            [user_element s,
             placeholder\<lparr>children :=
               Paragraph (concat (List.map_filter (response_text numstr) (before @ after)))\<rparr>]))"
proof -
  have n: "response_text numstr line = None"
    using assms by (simp add: response_text_def)
  have p: "process_line numstr el line (s1, t1) =
      (s1\<lparr>console := console s1 @ [Warn SyntaxError line]\<rparr>, t1)" for s1 t1
    using assms by (simp add: try_line_def process_line_def)
  have m: "List.map_filter (response_text numstr) (before @ line # after) =
      List.map_filter (response_text numstr) (before @ after)"
    by (simp add: map_filter_append n)
  have texts: "response_texts numstr cs = List.map_filter (response_text numstr) (before @ after)"
    if "lines_of cs = before @ line # after" for cs
    using that m by (simp add: response_texts_def)
  have texts': "response_texts numstr cs' = List.map_filter (response_text numstr) (before @ after)"
    if "lines_of cs' = before @ after"
    using that by (simp add: response_texts_def)
  have loop: "\<exists>s'. read_loop numstr el rd 0 (s, t) =
        Some (Inr (s', t @ concat (response_texts numstr cs))) \<and>
      textContent_writes s' = textContent_writes s @ running t (response_texts numstr cs) \<and>
      chatMessages s' = (chatMessages s)
          [el := (chatMessages s ! el)\<lparr>children :=
             if response_texts numstr cs = []
             then children (chatMessages s ! el)
             else Paragraph (t @ concat (response_texts numstr cs))\<rparr>]"
    if "delivers rd cs Done" for rd cs
    using fold_chunks_state [of numstr el cs s t]
    by (auto simp: read_loop_delivers [OF that])
  have 1: "try_line numstr el line (s, t) = Inl SyntaxError"
    using assms by (simp add: try_line_def)
  have 2: "fold (process_line numstr el) (line # rest) (s, t) =
      fold (process_line numstr el) rest (s\<lparr>console := console s @ [Warn SyntaxError line]\<rparr>, t)"
    by (simp add: p)
  have 3: "delivers rd cs Done \<longrightarrow> (\<exists>r. read_loop numstr el rd 0 (s, t) = Some (Inr r))"
    by (simp add: read_loop_delivers)
  have 4: "split LF chunk = pre @ line # post \<longrightarrow>
       process_chunk numstr el chunk (s, t) =
         fold (process_line numstr el) post
           (case fold (process_line numstr el) pre (s, t) of
              (s1, t1) \<Rightarrow> (s1\<lparr>console := console s1 @ [Warn SyntaxError line]\<rparr>, t1))"
    by (cases "fold (process_line numstr el) pre (s, t)") (simp add: process_chunk_def p)
  have 5: "delivers rd cs Done \<and> lines_of cs = before @ line # after \<longrightarrow>
       (\<exists>s'. read_loop numstr el rd 0 (s, t) =
            Some (Inr (s', t @ concat (List.map_filter (response_text numstr) (before @ after)))) \<and>
          textContent_writes s' = textContent_writes s @
            running t (List.map_filter (response_text numstr) (before @ after)))"
    using loop [of rd cs] texts [of cs] by auto
  have 6: "delivers rd cs Done \<and> lines_of cs = before @ line # after \<and>
     delivers rd' cs' Done \<and> lines_of cs' = before @ after \<longrightarrow>
       (\<exists>s1 s2 text.
          read_loop numstr el rd 0 (s, t) = Some (Inr (s1, text)) \<and>
          read_loop numstr el rd' 0 (s, t) = Some (Inr (s2, text)) \<and>
          textContent_writes s1 = textContent_writes s2 \<and>
          chatMessages s1 = chatMessages s2)"
  proof (intro impI, elim conjE)
    assume d: "delivers rd cs Done" and l: "lines_of cs = before @ line # after"
      and d': "delivers rd' cs' Done" and l': "lines_of cs' = before @ after"
    from loop [OF d] loop [OF d'] texts [OF l] texts' [OF l']
    show "\<exists>s1 s2 text.
          read_loop numstr el rd 0 (s, t) = Some (Inr (s1, text)) \<and>
          read_loop numstr el rd' 0 (s, t) = Some (Inr (s2, text)) \<and>
          textContent_writes s1 = textContent_writes s2 \<and>
          chatMessages s1 = chatMessages s2"
      by auto
  qed
  have 7: "accepted s \<and> delivers rd cs Done \<and> lines_of cs = before @ line # after \<longrightarrow>
       (\<exists>s'. sendMessage numstr (Response True (Some rd)) s = Some s' \<and>
          chatHistory s' = chatHistory s @
            [user_message s,
             \<lparr>role = js ''assistant'',
              content = concat (List.map_filter (response_text numstr) (before @ after))\<rparr>] \<and>
          chatMessages s' = chatMessages s @
            [user_element s,
             placeholder\<lparr>children :=
               Paragraph (concat (List.map_filter (response_text numstr) (before @ after)))\<rparr>])"
  proof (intro impI, elim conjE)
    assume a: "accepted s" and d: "delivers rd cs Done" and l: "lines_of cs = before @ line # after"
    from sendMessage_done [OF a d, of numstr] texts [OF l]
    show "\<exists>s'. sendMessage numstr (Response True (Some rd)) s = Some s' \<and>
          chatHistory s' = chatHistory s @
            [user_message s,
             \<lparr>role = js ''assistant'',
              content = concat (List.map_filter (response_text numstr) (before @ after))\<rparr>] \<and>
          chatMessages s' = chatMessages s @
            [user_element s,
             placeholder\<lparr>children :=
               Paragraph (concat (List.map_filter (response_text numstr) (before @ after)))\<rparr>]"
      by (auto simp: finally_block_def)
  qed
  from 1 p [of s t] 2 n 3 4 5 6 7 show ?thesis
    by (intro conjI)
qed

theorem C7_malformed_line_is_skipped_witness:
  \<open>JSON_parse (js ''data: [DONE]'') = None \<and>
   split LF (js ''data: [DONE]\<newline>{"response":"Hi"}'') = [js ''data: [DONE]'', js ''{"response":"Hi"}''] \<and>
   process_chunk no_numbers 2 (js ''data: [DONE]\<newline>{"response":"Hi"}'') (in_flight asking, [])
     = (set_textContent 2 (js ''Hi'')
          ((in_flight asking)\<lparr>console := [Warn SyntaxError (js ''data: [DONE]'')]\<rparr>), js ''Hi'') \<and>
   (\<exists>s'. read_loop no_numbers 2
        (stream_of [js ''data: [DONE]\<newline>{"response":"Hi"}''] Done) 0 (in_flight asking, [])
      = Some (Inr (s', js ''Hi'')) \<and>
      textContent_writes s' = [js ''Hi'']) \<and>
   (\<exists>s1 s2 text.
      read_loop no_numbers 2
        (stream_of [js ''data: [DONE]\<newline>{"response":"Hi"}''] Done) 0 (in_flight asking, [])
      = Some (Inr (s1, text)) \<and>
      read_loop no_numbers 2 (stream_of [js ''{"response":"Hi"}''] Done) 0 (in_flight asking, [])
      = Some (Inr (s2, text)) \<and>
      textContent_writes s1 = textContent_writes s2 \<and>
      chatMessages s1 = chatMessages s2) \<and>
   accepted asking \<and>
   (\<exists>s'. sendMessage no_numbers
        (Response True (Some (stream_of [js ''data: [DONE]\<newline>{"response":"Hi"}''] Done))) asking
      = Some s' \<and>
      chatHistory s' = chatHistory initial_state @
        [\<lparr>role = js ''user'', content = js ''hi''\<rparr>,
         \<lparr>role = js ''assistant'', content = js ''Hi''\<rparr>] \<and>
      chatMessages s' = chatMessages initial_state @
        [\<lparr>className = js ''message user-message'', children = Html (js ''<p>hi</p>'')\<rparr>,
         \<lparr>className = js ''message assistant-message'', children = Paragraph (js ''Hi'')\<rparr>])\<close>
proof -
  let ?bad = "js ''data: [DONE]''"
  let ?good = \<open>js ''{"response":"Hi"}''\<close>
  let ?chunk = \<open>js ''data: [DONE]\<newline>{"response":"Hi"}''\<close>
  have 1: "JSON_parse ?bad = None"
    by (simp add: eval_defs)
  have 2: "response_text no_numbers ?good = Some (js ''Hi'')"
    by (simp add: eval_defs)
  have 3: "console (in_flight asking) = []"
    and w: "textContent_writes (in_flight asking) = []"
    by (simp_all add: in_flight_def asking_def initial_state_def)
  have sp: "split LF ?chunk = [] @ ?bad # [?good]"
    by (simp add: split_def js_def)
  have l: "lines_of [?chunk] = [] @ ?bad # [?good]"
    and l': "lines_of [?good] = [] @ [?good]"
    by (simp_all add: lines_of_def split_def js_def)
  have d: "delivers (stream_of [?chunk] Done) [?chunk] Done"
    and d': "delivers (stream_of [?good] Done) [?good] Done"
    by (rule delivers_stream_of)+
  have m: "List.map_filter (response_text no_numbers) ([] @ [?good]) = [js ''Hi'']"
    by (simp add: List.map_filter_def 2)
  have u: "user_message asking = \<lparr>role = js ''user'', content = js ''hi''\<rparr>"
    and e: "user_element asking =
      \<lparr>className = js ''message user-message'', children = Html (js ''<p>hi</p>'')\<rparr>"
    and h: "chatHistory asking = chatHistory initial_state"
    and c: "chatMessages asking = chatMessages initial_state"
    by (simp_all add: user_message_def user_element_def shown_user_text_def asking_def
        initial_state_def trim_def is_trim_space_def js_def)
  have a: "process_chunk no_numbers 2 ?chunk (in_flight asking, [])
     = (set_textContent 2 (js ''Hi'')
          ((in_flight asking)\<lparr>console := [Warn SyntaxError ?bad]\<rparr>), js ''Hi'')"
    using C7_malformed_line_is_skipped [OF 1, of no_numbers 2 "in_flight asking" "[]" "[]" _ _ ?chunk "[]" "[?good]"] sp
    by (simp add: process_line_Some [OF 2] 3)
  have b: "\<exists>s'. read_loop no_numbers 2 (stream_of [?chunk] Done) 0 (in_flight asking, [])
      = Some (Inr (s', js ''Hi'')) \<and> textContent_writes s' = [js ''Hi'']"
    using C7_malformed_line_is_skipped [OF 1, of no_numbers 2 "in_flight asking" "[]" "[]"
        "stream_of [?chunk] Done" "[?chunk]" ?chunk "[]" "[?good]" "[]" "[?good]"] d l
    unfolding m by (simp add: w)
  have f: "\<exists>s1 s2 text.
      read_loop no_numbers 2 (stream_of [?chunk] Done) 0 (in_flight asking, []) = Some (Inr (s1, text)) \<and>
      read_loop no_numbers 2 (stream_of [?good] Done) 0 (in_flight asking, []) = Some (Inr (s2, text)) \<and>
      textContent_writes s1 = textContent_writes s2 \<and>
      chatMessages s1 = chatMessages s2"
    using C7_malformed_line_is_skipped [OF 1, of no_numbers 2 "in_flight asking" "[]" "[]"
        "stream_of [?chunk] Done" "[?chunk]" ?chunk "[]" "[?good]" "[]" "[?good]"
        "stream_of [?good] Done" "[?good]"] d l d' l'
    by blast
  have g: "\<exists>s'. sendMessage no_numbers (Response True (Some (stream_of [?chunk] Done))) asking = Some s' \<and>
      chatHistory s' = chatHistory initial_state @
        [\<lparr>role = js ''user'', content = js ''hi''\<rparr>,
         \<lparr>role = js ''assistant'', content = js ''Hi''\<rparr>] \<and>
      chatMessages s' = chatMessages initial_state @
        [\<lparr>className = js ''message user-message'', children = Html (js ''<p>hi</p>'')\<rparr>,
         \<lparr>className = js ''message assistant-message'', children = Paragraph (js ''Hi'')\<rparr>]"
    using C7_malformed_line_is_skipped [OF 1, of no_numbers 2 asking "[]" "[]"
        "stream_of [?chunk] Done" "[?chunk]" ?chunk "[]" "[?good]" "[]" "[?good]"] d l accepted_asking
    unfolding m u e h c by (simp add: placeholder_def)
  have sp': "split LF ?chunk = [?bad, ?good]"
    using sp by simp
  from 1 sp' a b f g accepted_asking show ?thesis
    by blast
qed

text \<open>
  C8. A submission whose text is empty after trimming and that has no image, and any
  submission made while a request is in flight, returns at the guard: the call gives back
  the state it found. No request is added to \<open>requests\<close>, no message to
  \<open>chatHistory\<close>, no element to \<open>chatMessages\<close>, nothing to \<open>console\<close>.
\<close>

theorem C8_no_op:
  assumes "(trim (userInput_value s) = [] \<and> imageInput_files s = []) \<or> isProcessing s"
  shows "sendMessage numstr net s = Some s"
  using assms by (auto simp: sendMessage_def imageFile_of_def)

theorem C8_no_op_witness:
  "sendMessage no_numbers FetchRejected (initial_state\<lparr>userInput_value := js ''  ''\<rparr>)
     = Some (initial_state\<lparr>userInput_value := js ''  ''\<rparr>) \<and>
   sendMessage no_numbers FetchRejected ((in_flight asking)\<lparr>userInput_value := js ''again''\<rparr>)
     = Some ((in_flight asking)\<lparr>userInput_value := js ''again''\<rparr>)"
proof -
  have 1: "(trim (userInput_value (initial_state\<lparr>userInput_value := js ''  ''\<rparr>)) = [] \<and>
        imageInput_files (initial_state\<lparr>userInput_value := js ''  ''\<rparr>) = []) \<or>
      isProcessing (initial_state\<lparr>userInput_value := js ''  ''\<rparr>)"
    by (simp add: initial_state_def trim_def is_trim_space_def js_def)
  have 2: "(trim (userInput_value ((in_flight asking)\<lparr>userInput_value := js ''again''\<rparr>)) = [] \<and>
        imageInput_files ((in_flight asking)\<lparr>userInput_value := js ''again''\<rparr>) = []) \<or>
      isProcessing ((in_flight asking)\<lparr>userInput_value := js ''again''\<rparr>)"
    by (simp add: in_flight_def)
  show ?thesis
    using C8_no_op [OF 1] C8_no_op [OF 2] by simp
qed

text \<open>
  C9. For an accepted submission, the user message put into the history holds the
  trimmed input text only, while the element put into the chat view holds that text
  with the \<^verbatim>\<open>[Image attached]\<close> note when an image is chosen. With an image and no
  text, the recorded content is the empty string and the view shows
  \<^verbatim>\<open>[Image attached]\<close>: the two differ.
\<close>

theorem C9_recorded_user_text:
  assumes "accepted s" and "sendMessage numstr net s = Some s'"
  shows
    "(\<exists>rest. chatHistory s' = chatHistory s @
        \<lparr>role = js ''user'', content = trim (userInput_value s)\<rparr> # rest) \<and>
     (\<exists>rest. chatMessages s' = chatMessages s @
        \<lparr>className = js ''message user-message'',
         children = Html (js ''<p>'' @ shown_user_text s @ js ''</p>'')\<rparr> # rest) \<and>
     (imageInput_files s \<noteq> [] \<and> trim (userInput_value s) \<noteq> [] \<longrightarrow>
        shown_user_text s = trim (userInput_value s) @ js ''\<newline>[Image attached]'') \<and>
     (imageInput_files s \<noteq> [] \<and> trim (userInput_value s) = [] \<longrightarrow>
        shown_user_text s = js ''[Image attached]'' \<and>
        (\<exists>rest. chatHistory s' = chatHistory s @ \<lparr>role = js ''user'', content = []\<rparr> # rest)) \<and>
     (imageInput_files s = [] \<longrightarrow> shown_user_text s = trim (userInput_value s))"
  using sendMessage_returns [OF assms]
  by (auto simp: user_message_def user_element_def shown_user_text_def)

theorem C9_recorded_user_text_witness:
  "accepted (initial_state\<lparr>imageInput_files := [[0x89, 0x50]]\<rparr>) \<and>
   sendMessage no_numbers FetchRejected (initial_state\<lparr>imageInput_files := [[0x89, 0x50]]\<rparr>) \<noteq> None \<and>
   shown_user_text (initial_state\<lparr>imageInput_files := [[0x89, 0x50]]\<rparr>) = js ''[Image attached]'' \<and>
   (\<exists>rest. chatHistory (the (sendMessage no_numbers FetchRejected
        (initial_state\<lparr>imageInput_files := [[0x89, 0x50]]\<rparr>)))
      = chatHistory initial_state @ \<lparr>role = js ''user'', content = []\<rparr> # rest) \<and>
   (\<exists>rest. chatMessages (the (sendMessage no_numbers FetchRejected
        (initial_state\<lparr>imageInput_files := [[0x89, 0x50]]\<rparr>)))
      = chatMessages initial_state @
        \<lparr>className = js ''message user-message'',
         children = Html (js ''<p>[Image attached]</p>'')\<rparr> # rest) \<and>
   accepted (asking\<lparr>imageInput_files := [[0x89, 0x50]]\<rparr>) \<and>
   sendMessage no_numbers FetchRejected (asking\<lparr>imageInput_files := [[0x89, 0x50]]\<rparr>) \<noteq> None \<and>
   shown_user_text (asking\<lparr>imageInput_files := [[0x89, 0x50]]\<rparr>) = js ''hi\<newline>[Image attached]'' \<and>
   (\<exists>rest. chatHistory (the (sendMessage no_numbers FetchRejected
        (asking\<lparr>imageInput_files := [[0x89, 0x50]]\<rparr>)))
      = chatHistory initial_state @ \<lparr>role = js ''user'', content = js ''hi''\<rparr> # rest) \<and>
   accepted asking \<and>
   sendMessage no_numbers FetchRejected asking \<noteq> None \<and>
   shown_user_text asking = js ''hi''"
proof -
  let ?s = "initial_state\<lparr>imageInput_files := [[0x89, 0x50]]\<rparr>"
  let ?s2 = "asking\<lparr>imageInput_files := [[0x89, 0x50]]\<rparr>"
  have a: "accepted ?s"
    by (simp add: accepted_def initial_state_def)
  obtain s' where s': "sendMessage no_numbers FetchRejected ?s = Some s'"
    by (simp add: sendMessage_accepted [OF a])
  have t: "trim (userInput_value ?s) = []"
    by (simp add: initial_state_def trim_def)
  have f: "imageInput_files ?s \<noteq> []"
    by simp
  have j: "js ''<p>'' @ js ''[Image attached]'' @ js ''</p>'' = js ''<p>[Image attached]</p>''"
    by (simp add: js_def)
  have 1: "shown_user_text ?s = js ''[Image attached]'' \<and>
    (\<exists>rest. chatHistory s' = chatHistory initial_state @ \<lparr>role = js ''user'', content = []\<rparr> # rest) \<and>
    (\<exists>rest. chatMessages s' = chatMessages initial_state @
        \<lparr>className = js ''message user-message'',
         children = Html (js ''<p>[Image attached]</p>'')\<rparr> # rest)"
    using C9_recorded_user_text [OF a s'] t f j by auto
  have a2: "accepted ?s2"
    using accepted_asking by (simp add: accepted_def)
  obtain s2' where s2': "sendMessage no_numbers FetchRejected ?s2 = Some s2'"
    by (simp add: sendMessage_accepted [OF a2])
  have t2: "trim (userInput_value ?s2) = js ''hi''"
    by (simp add: asking_def trim_hi)
  have n2: "js ''hi'' \<noteq> []"
    by (simp add: js_def)
  have f2: "imageInput_files ?s2 \<noteq> []"
    by simp
  have j2: "js ''hi'' @ js ''\<newline>[Image attached]'' = js ''hi\<newline>[Image attached]''"
    by (simp add: js_def)
  have h2: "chatHistory ?s2 = chatHistory initial_state"
    by (simp add: asking_def)
  have 2: "shown_user_text ?s2 = js ''hi\<newline>[Image attached]'' \<and>
    (\<exists>rest. chatHistory s2' = chatHistory initial_state @ \<lparr>role = js ''user'', content = js ''hi''\<rparr> # rest)"
    using C9_recorded_user_text [OF a2 s2'] t2 n2 f2 j2 h2 by auto
  obtain s3' where s3': "sendMessage no_numbers FetchRejected asking = Some s3'"
    by (simp add: sendMessage_accepted [OF accepted_asking])
  have t3: "trim (userInput_value asking) = js ''hi''"
    by (simp add: asking_def trim_hi)
  have f3: "imageInput_files asking = []"
    by (simp add: asking_def initial_state_def)
  have 3: "shown_user_text asking = js ''hi''"
    using C9_recorded_user_text [OF accepted_asking s3'] t3 f3 by auto
  from 1 2 3 a a2 accepted_asking s' s2' s3' show ?thesis
    by simp
qed

text \<open>
  C10. A line that parses to an object whose \<^verbatim>\<open>response\<close> member is there but
  falsy (the empty string, for one) is handled as a line whose object has no such
  member: the \<^verbatim>\<open>try\<close> of the line ends without an exception and leaves the state
  and the accumulated text as they were, so nothing is displayed and nothing is logged.
  The test is the truth value of the member, not its presence.
\<close>

theorem C10_falsy_response_ignored:
  assumes "JSON_parse line = Some (JObject ms)"
    and "map_of (rev ms) (js ''response'') = Some v"
    and "\<not> truthy v"
    and "JSON_parse line' = Some (JObject ms')"
    and "map_of (rev ms') (js ''response'') = None"
  shows "try_line numstr el line (s, t) = Inr (s, t) \<and>
    process_line numstr el line (s, t) = (s, t) \<and>
    try_line numstr el line' (s, t) = Inr (s, t) \<and>
    process_line numstr el line' (s, t) = (s, t)"
  using assms by (simp add: try_line_def process_line_def)

theorem C10_falsy_response_ignored_witness:
  \<open>JSON_parse (js ''{"response":""}'') = Some (JObject [(js ''response'', JString [])]) \<and>
   \<not> truthy (JString []) \<and>
   JSON_parse (js ''{"done":true}'') = Some (JObject [(js ''done'', JBool True)]) \<and>
   process_line no_numbers 2 (js ''{"response":""}'') (in_flight asking, js ''Hi'')
     = (in_flight asking, js ''Hi'') \<and>
   process_line no_numbers 2 (js ''{"done":true}'') (in_flight asking, js ''Hi'')
     = (in_flight asking, js ''Hi'')\<close>
proof -
  have 1: \<open>JSON_parse (js ''{"response":""}'') = Some (JObject [(js ''response'', JString [])])\<close>
    by (simp add: eval_defs)
  have 2: "map_of (rev [(js ''response'', JString [])]) (js ''response'') = Some (JString [])"
    by simp
  have 3: "\<not> truthy (JString [])"
    by simp
  have 4: \<open>JSON_parse (js ''{"done":true}'') = Some (JObject [(js ''done'', JBool True)])\<close>
    by (simp add: eval_defs)
  have 5: "map_of (rev [(js ''done'', JBool True)]) (js ''response'') = None"
    by (simp add: js_def)
  show ?thesis
    using C10_falsy_response_ignored [OF 1 2 3 4 5, of no_numbers 2 "in_flight asking" "js ''Hi''"]
      1 3 4 by simp
qed

end
